theory Spec2Isabelle
  imports Main "HOL-Library.AList"
begin

section \<open>Python values used by pyglottolog.languoids\<close>

text \<open>
  Strings are lists of characters. Exceptions are values of \<open>error\<close>; a function that
  can raise returns \<open>error + 'a\<close> with \<open>Inl\<close> for the exception.
\<close>

datatype error = AssertionError | ValueError | TypeError | AttributeError | OSError

subsection \<open>String operations\<close>

text \<open>\<open>s.startswith(t)\<close> and \<open>s.endswith(t)\<close>.\<close>

definition startswith :: "string \<Rightarrow> string \<Rightarrow> bool" where
  "startswith s t = (take (length t) s = t)"

definition endswith :: "string \<Rightarrow> string \<Rightarrow> bool" where
  "endswith s t = (length t \<le> length s \<and> drop (length s - length t) s = t)"

text \<open>
  \<open>s.split(sep)\<close> for a non-empty separator: the pieces between the non-overlapping
  occurrences of \<open>sep\<close>, found from the left. \<open>acc\<close> is the current piece, reversed.
\<close>

fun split_from :: "string \<Rightarrow> string \<Rightarrow> string \<Rightarrow> string list" where
  "split_from sep acc [] = [rev acc]"
| "split_from sep acc (c # cs) =
     (if sep \<noteq> [] \<and> startswith (c # cs) sep
      then rev acc # split_from sep [] (drop (length sep - 1) cs)
      else split_from sep (c # acc) cs)"

definition split :: "string \<Rightarrow> string \<Rightarrow> string list" where
  "split s sep = split_from sep [] s"

text \<open>\<open>s.split(sep, 1)\<close>: cut at the first occurrence of \<open>sep\<close> only.\<close>

fun split1_from :: "string \<Rightarrow> string \<Rightarrow> string \<Rightarrow> string list" where
  "split1_from sep acc [] = [rev acc]"
| "split1_from sep acc (c # cs) =
     (if sep \<noteq> [] \<and> startswith (c # cs) sep
      then [rev acc, drop (length sep - 1) cs]
      else split1_from sep (c # acc) cs)"

definition split1 :: "string \<Rightarrow> string \<Rightarrow> string list" where
  "split1 s sep = split1_from sep [] s"

text \<open>
  Unpacking \<open>a, b = xs\<close> raises ValueError unless \<open>xs\<close> has exactly two elements.
\<close>

fun unpack2 :: "'a list \<Rightarrow> error + ('a \<times> 'a)" where
  "unpack2 [a, b] = Inr (a, b)"
| "unpack2 _ = Inl ValueError"

text \<open>
  \<open>s.strip()\<close> removes leading and trailing whitespace: among the characters below 256
  these are 9..13, 28..32, 133 and 160.
\<close>

definition isspace :: "char \<Rightarrow> bool" where
  "isspace c = (let n = (of_char c :: nat) in
     (9 \<le> n \<and> n \<le> 13) \<or> (28 \<le> n \<and> n \<le> 32) \<or> n = 133 \<or> n = 160)"

definition strip :: "string \<Rightarrow> string" where
  "strip s = rev (dropWhile isspace (rev (dropWhile isspace s)))"

text \<open>\<open>sep.join(xs)\<close>.\<close>

fun join :: "string \<Rightarrow> string list \<Rightarrow> string" where
  "join sep [] = []"
| "join sep [x] = x"
| "join sep (x # y # ys) = x @ sep @ join sep (y # ys)"

text \<open>\<open>'%s' % v\<close> for a value that is a string or None.\<close>

fun fmt_s :: "string option \<Rightarrow> string" where
  "fmt_s None = ''None''"
| "fmt_s (Some s) = s"

subsection \<open>Regular expressions\<close>

text \<open>
  The fragment of Python's \<open>re\<close> syntax that \<open>ID_REGEX\<close> uses: literals, character
  classes given as ranges, concatenation, alternation, \<open>?\<close>, \<open>{n}\<close> and \<open>+\<close>.
  \<open>rmatch r s\<close> lists the remainders of \<open>s\<close> after every way \<open>r\<close> can match a prefix
  of \<open>s\<close>, in the order the backtracking matcher tries them (quantifiers are greedy).
\<close>

datatype regex =
    Lit string
  | Cls "(char \<times> char) list"
  | Cat regex regex
  | Alt regex regex
  | Opt regex
  | Rep nat regex
  | Plus regex

definition in_class :: "(char \<times> char) list \<Rightarrow> char \<Rightarrow> bool" where
  "in_class rs c =
     list_ex (\<lambda>(lo, hi). (of_char lo :: nat) \<le> of_char c \<and> (of_char c :: nat) \<le> of_char hi) rs"

fun rep_iter :: "(string \<Rightarrow> string list) \<Rightarrow> nat \<Rightarrow> string \<Rightarrow> string list" where
  "rep_iter f 0 s = [s]"
| "rep_iter f (Suc n) s = concat (map (rep_iter f n) (f s))"

text \<open>
  One or more greedy repetitions. Each repetition of a body that consumes at least one
  character shortens the subject, so \<open>length s\<close> rounds of fuel reach every match.
\<close>

fun plus_iter :: "(string \<Rightarrow> string list) \<Rightarrow> nat \<Rightarrow> string \<Rightarrow> string list" where
  "plus_iter f 0 s = []"
| "plus_iter f (Suc k) s = concat (map (\<lambda>r. plus_iter f k r @ [r]) (f s))"

fun rmatch :: "regex \<Rightarrow> string \<Rightarrow> string list" where
  "rmatch (Lit l) s = (if startswith s l then [drop (length l) s] else [])"
| "rmatch (Cls rs) s = (case s of [] \<Rightarrow> [] | c # cs \<Rightarrow> if in_class rs c then [cs] else [])"
| "rmatch (Cat a b) s = concat (map (rmatch b) (rmatch a s))"
| "rmatch (Alt a b) s = rmatch a s @ rmatch b s"
| "rmatch (Opt a) s = rmatch a s @ [s]"
| "rmatch (Rep n a) s = rep_iter (rmatch a) n s"
| "rmatch (Plus a) s = plus_iter (rmatch a) (length s) s"

text \<open>
  \<open>re.compile(r + '$').match(s)\<close> is not None: \<open>r\<close> matches a prefix of \<open>s\<close> and
  \<open>$\<close> matches after it, which Python's \<open>$\<close> does at the end of the string and also
  just before a newline that ends the string.
\<close>

definition at_dollar :: "string \<Rightarrow> bool" where
  "at_dollar rest = (rest = [] \<or> rest = [CHR 0x0A])"

definition match_dollar :: "regex \<Rightarrow> string \<Rightarrow> bool" where
  "match_dollar r s = list_ex at_dollar (rmatch r s)"

section \<open>Identifiers and levels\<close>

text \<open>\<open>ID_REGEX = '([a-z0-9]{4}[0-9]{4}|NOCODE(_[A-Za-z0-9\-]+)?)'\<close>\<close>

definition ID_REGEX :: regex where
  "ID_REGEX =
     Alt (Cat (Rep 4 (Cls [(CHR ''a'', CHR ''z''), (CHR ''0'', CHR ''9'')]))
              (Rep 4 (Cls [(CHR ''0'', CHR ''9'')])))
         (Cat (Lit ''NOCODE'')
              (Opt (Cat (Lit ''_'')
                        (Plus (Cls [(CHR ''A'', CHR ''Z''), (CHR ''a'', CHR ''z''),
                                    (CHR ''0'', CHR ''9''), (CHR ''-'', CHR ''-'')])))))"

text \<open>\<open>Languoid.id_pattern.match(s)\<close>, with \<open>id_pattern = re.compile(ID_REGEX + '$')\<close>.\<close>

definition id_pattern_match :: "string \<Rightarrow> bool" where
  "id_pattern_match s = match_dollar ID_REGEX s"

datatype Level = family | language | dialect

text \<open>
  A Python value in a level position: None, a string, or a member of the enum.
  \<open>Level(v)\<close> returns the member for a member or for its value string, and raises
  ValueError for anything else.
\<close>

datatype level_val = LvNone | LvStr string | LvEnum Level

fun Level_value :: "Level \<Rightarrow> string" where
  "Level_value family = ''family''"
| "Level_value language = ''language''"
| "Level_value dialect = ''dialect''"

fun Level_call :: "level_val \<Rightarrow> error + Level" where
  "Level_call (LvEnum l) = Inr l"
| "Level_call (LvStr s) =
     (if s = ''family'' then Inr family
      else if s = ''language'' then Inr language
      else if s = ''dialect'' then Inr dialect
      else Inl ValueError)"
| "Level_call LvNone = Inl ValueError"

section \<open>The Languoid entity\<close>

subsection \<open>Descriptor and paths\<close>

text \<open>
  The descriptor (\<open>cfg\<close>, an \<open>INI\<close> object) is read and written only through the options
  of its \<open>core\<close> section, so it is modelled as that section: the options in their stored
  order. \<open>cfg.get('core', key, fallback=None)\<close> is \<open>map_of cfg key\<close> and
  \<open>cfg.set('core', key, value)\<close> is \<open>AList.update key value cfg\<close>.
\<close>

type_synonym cfg = "(string \<times> string) list"

text \<open>
  A path is the list of its components. \<open>p.name\<close> is the last component (the empty
  string for a path without components), \<open>p.parent\<close> drops it, \<open>p.parents\<close> lists the
  proper prefixes from the longest to the empty one, \<open>p.suffix\<close> is the name from
  its last dot on (empty when the name has no dot or its last dot is its first or its
  last character).
\<close>

type_synonym path = "string list"

definition name_of :: "path \<Rightarrow> string" where
  "name_of p = (if p = [] then [] else last p)"

definition parent_of :: "path \<Rightarrow> path" where
  "parent_of p = butlast p"

definition parents :: "path \<Rightarrow> path list" where
  "parents p = map (\<lambda>k. take k p) (rev [0..<length p])"

definition suffix :: "path \<Rightarrow> string" where
  "suffix p =
     (let name = name_of p; after = takeWhile (\<lambda>c. c \<noteq> CHR ''.'') (rev name) in
      if length after < length name \<and> after \<noteq> [] \<and> Suc (length after) < length name
      then CHR ''.'' # rev after else [])"

subsection \<open>Construction\<close>

text \<open>
  A lineage entry as passed to the constructor is a triple (name, id, level) of Python
  values; the constructor stores the level as an enum member.
\<close>

type_synonym raw_entry = "string option \<times> string option \<times> level_val"
type_synonym entry = "string option \<times> string \<times> Level"

record Languoid =
  lineage :: "entry list"
  cfg :: cfg
  dir :: path

text \<open>
  One element of the list in the constructor's assertion,
  \<open>self.id_pattern.match(id) and Level(level)\<close>, as its truth value: matching None
  raises TypeError, a failed match is falsy without evaluating \<open>Level(level)\<close>, and an
  enum member is truthy.
\<close>

fun entry_check :: "raw_entry \<Rightarrow> error + bool" where
  "entry_check (name, None, level) = Inl TypeError"
| "entry_check (name, Some i, level) =
     (if id_pattern_match i
      then (case Level_call level of Inl e \<Rightarrow> Inl e | Inr l \<Rightarrow> Inr True)
      else Inr False)"

text \<open>A list comprehension: the elements in order, stopping at the first exception.\<close>

fun comprehension :: "('a \<Rightarrow> error + 'b) \<Rightarrow> 'a list \<Rightarrow> error + 'b list" where
  "comprehension f [] = Inr []"
| "comprehension f (x # xs) =
     (case f x of Inl e \<Rightarrow> Inl e
      | Inr y \<Rightarrow> (case comprehension f xs of Inl e \<Rightarrow> Inl e | Inr ys \<Rightarrow> Inr (y # ys)))"

text \<open>An element of \<open>[(name, id, Level(level)) for name, id, level in lineage]\<close>.\<close>

fun entry_store :: "raw_entry \<Rightarrow> error + entry" where
  "entry_store (name, None, level) = Inl TypeError"
| "entry_store (name, Some i, level) =
     (case Level_call level of Inl e \<Rightarrow> Inl e | Inr l \<Rightarrow> Inr (name, i, l))"

text \<open>
  \<open>Languoid.__init__(cfg, lineage=None, directory=None)\<close>. \<open>TREE\<close> is
  \<open>languoids_path('tree')\<close>, computed by \<open>pyglottolog.util\<close>, and is a parameter here.
  \<open>TREE.joinpath(*ids)\<close> appends the ids as components.
\<close>

definition Languoid_init ::
  "path \<Rightarrow> cfg \<Rightarrow> raw_entry list option \<Rightarrow> path option \<Rightarrow> error + Languoid" where
  "Languoid_init TREE c lin directory =
     (let lin = (case lin of None \<Rightarrow> [] | Some l \<Rightarrow> l) in
      case comprehension entry_check lin of
        Inl e \<Rightarrow> Inl e
      | Inr checks \<Rightarrow>
          if \<not> list_all (\<lambda>b. b) checks then Inl AssertionError
          else (case comprehension entry_store lin of
                  Inl e \<Rightarrow> Inl e
                | Inr stored \<Rightarrow>
                    Inr \<lparr>lineage = stored, cfg = c,
                         dir = (case directory of
                                  Some d \<Rightarrow> d
                                | None \<Rightarrow> TREE @ map (\<lambda>(name, i, _). i) stored)\<rparr>))"

subsection \<open>Accessors\<close>

definition get_core :: "Languoid \<Rightarrow> string \<Rightarrow> string option" where
  "get_core l key = map_of (cfg l) key"

definition set_core :: "Languoid \<Rightarrow> string \<Rightarrow> string \<Rightarrow> Languoid" where
  "set_core l key v = l\<lparr>cfg := AList.update key v (cfg l)\<rparr>"

definition name :: "Languoid \<Rightarrow> string option" where
  "name l = get_core l ''name''"

definition id_of :: "Languoid \<Rightarrow> string option" where
  "id_of l = get_core l ''glottocode''"

definition iso :: "Languoid \<Rightarrow> string option" where
  "iso l = get_core l ''iso639-3''"

definition set_iso :: "Languoid \<Rightarrow> string \<Rightarrow> Languoid" where
  "set_iso l v = set_core l ''iso639-3'' v"

text \<open>
  \<open>level\<close> is \<open>_get('level', Level)\<close>: a missing or empty option is returned as it is,
  any other string goes through \<open>Level\<close>.
\<close>

definition level :: "Languoid \<Rightarrow> error + level_val" where
  "level l =
     (case get_core l ''level'' of
        None \<Rightarrow> Inr LvNone
      | Some s \<Rightarrow> if s = [] then Inr (LvStr [])
                  else (case Level_call (LvStr s) of Inl e \<Rightarrow> Inl e | Inr v \<Rightarrow> Inr (LvEnum v)))"

definition set_level :: "Languoid \<Rightarrow> level_val \<Rightarrow> error + Languoid" where
  "set_level l v =
     (case Level_call v of Inl e \<Rightarrow> Inl e | Inr m \<Rightarrow> Inr (set_core l ''level'' (Level_value m)))"

subsection \<open>The flat format\<close>

text \<open>
  \<open>Languoid.lff_group\<close>. \<open>group_lineage\<close> is its local variable \<open>lineage\<close>, the entries
  the label is joined from, and \<open>group_item\<close> is \<open>'%s [%s]' % (name, id)\<close>.
\<close>

definition group_lineage :: "level_val \<Rightarrow> entry list \<Rightarrow> entry list" where
  "group_lineage lv lin =
     (if lv = LvEnum dialect
      then rev (takeWhile (\<lambda>x. snd (snd x) \<noteq> family) (rev lin))
      else lin)"

fun group_item :: "entry \<Rightarrow> string" where
  "group_item (n, i, lv) = fmt_s n @ '' ['' @ i @ '']''"

definition lff_group :: "Languoid \<Rightarrow> error + string" where
  "lff_group l =
     (case level l of
        Inl e \<Rightarrow> Inl e
      | Inr lv \<Rightarrow>
          (let lin = group_lineage lv (lineage l)
           in if lineage l = [] then Inr (fmt_s (name l) @ '' [-isolate-]'')
              else (let res = join '', '' (map group_item lin)
                    in Inr (if res = [] then ''ERROR [-unclassified-]'' else res))))"

text \<open>
  The loop of \<open>Languoid.from_lff\<close> over \<open>enumerate(path.split('], '))\<close>; \<open>i\<close> is the index
  of the first component of the list.
\<close>

fun lff_lineage :: "Level \<Rightarrow> nat \<Rightarrow> string list \<Rightarrow> error + raw_entry list" where
  "lff_lineage lv i [] = Inr []"
| "lff_lineage lv i (cmp # comps) =
     (let cmp = (if endswith cmp '']'' then butlast cmp else cmp) in
      case unpack2 (split1 cmp '' ['') of
        Inl e \<Rightarrow> Inl e
      | Inr (n, ident) \<Rightarrow>
          (let lvl = (if lv = dialect then (if i = 0 then language else dialect)
                         else family)
           in case lff_lineage lv (Suc i) comps of
                Inl e \<Rightarrow> Inl e
              | Inr rest \<Rightarrow> Inr ((Some n, Some ident, LvEnum lvl) # rest)))"

text \<open>
  \<open>Languoid.from_lff(path, name_and_codes, level)\<close>; \<open>path\<close> may be None, and None and
  the empty string both skip the lineage.
\<close>

definition from_lff :: "path \<Rightarrow> string option \<Rightarrow> string \<Rightarrow> Level \<Rightarrow> error + Languoid" where
  "from_lff TREE pth name_and_codes lv =
     (case unpack2 (split1 name_and_codes ''['') of
        Inl e \<Rightarrow> Inl e
      | Inr (lname, codes) \<Rightarrow>
          (let lname = strip lname in
           case unpack2 (split (butlast codes) '']['') of
             Inl e \<Rightarrow> Inl e
           | Inr (glottocode, isocode) \<Rightarrow>
               (case (case pth of
                        None \<Rightarrow> Inr []
                      | Some p \<Rightarrow> if p = [] then Inr [] else lff_lineage lv 0 (split p ''], ''))
                of Inl e \<Rightarrow> Inl e
                 | Inr lin \<Rightarrow>
                     (case Languoid_init TREE [(''name'', lname), (''glottocode'', glottocode)]
                             (Some lin) None of
                        Inl e \<Rightarrow> Inl e
                      | Inr res \<Rightarrow>
                          (case set_level res (LvEnum lv) of
                             Inl e \<Rightarrow> Inl e
                           | Inr res \<Rightarrow>
                               Inr (if isocode \<noteq> [] then set_iso res isocode else res))))))"

section \<open>The directory tree\<close>

text \<open>
  A file system node is a file, given by the descriptor that reading it as an INI file
  yields, or a directory, given by its entries in the order \<open>iterdir\<close> lists them.
  Symbolic links are not modelled.
\<close>

datatype fsnode = File cfg | Dir "(string \<times> fsnode) list"

fun lookup :: "fsnode \<Rightarrow> path \<Rightarrow> fsnode option" where
  "lookup n [] = Some n"
| "lookup (File c) (x # xs) = None"
| "lookup (Dir es) (x # xs) = (case map_of es x of None \<Rightarrow> None | Some n \<Rightarrow> lookup n xs)"

text \<open>
  \<open>p.is_file()\<close>, \<open>p.is_dir()\<close>, \<open>p.iterdir()\<close> (which raises an OSError for a path that
  is not a directory) and \<open>cfg.read(p)\<close> (which reads nothing from a path that cannot
  be opened as a file).
\<close>

definition is_file :: "fsnode \<Rightarrow> path \<Rightarrow> bool" where
  "is_file fs p = (case lookup fs p of Some (File c) \<Rightarrow> True | _ \<Rightarrow> False)"

definition is_dir :: "fsnode \<Rightarrow> path \<Rightarrow> bool" where
  "is_dir fs p = (case lookup fs p of Some (Dir es) \<Rightarrow> True | _ \<Rightarrow> False)"

definition iterdir :: "fsnode \<Rightarrow> path \<Rightarrow> error + path list" where
  "iterdir fs p =
     (case lookup fs p of Some (Dir es) \<Rightarrow> Inr (map (\<lambda>(n, e). p @ [n]) es) | _ \<Rightarrow> Inl OSError)"

definition read_ini :: "fsnode \<Rightarrow> path \<Rightarrow> cfg" where
  "read_ini fs p = (case lookup fs p of Some (File c) \<Rightarrow> c | _ \<Rightarrow> [])"

subsection \<open>Loading from the tree\<close>

text \<open>
  \<open>nodes\<close> is the dictionary of \<open>Languoid.from_ini\<close>: it maps a key (a directory name or
  a node's id, which is None when the descriptor has no glottocode) to a triple
  (name, id, level). The functions that update it return the new dictionary beside their
  result, also when they raise.
\<close>

type_synonym nodes = "string option \<rightharpoonup> raw_entry"

text \<open>A bound on the path lengths of a list, for the termination proof below.\<close>

fun maxlen :: "path list \<Rightarrow> nat" where
  "maxlen [] = 0"
| "maxlen (p # ps) = max (4 * length p + 7) (maxlen ps)"

lemma maxlen_bound: "\<forall>p\<in>set ps. length p < n \<Longrightarrow> maxlen ps \<le> 4 * n + 3"
  by (induction ps) auto

lemma maxlen_parents: "maxlen (parents (butlast ini)) < 4 * length ini + 1"
proof (cases "butlast ini = []")
  case True
  then show ?thesis by (simp add: parents_def)
next
  case False
  have "\<forall>p\<in>set (parents (butlast ini)). length p < length (butlast ini)"
    by (auto simp: parents_def)
  from maxlen_bound[OF this] False show ?thesis
    by (cases ini) auto
qed

lemma iterdir_length: "iterdir fs d = Inr ps \<Longrightarrow> p \<in> set ps \<Longrightarrow> length p = Suc (length d)"
  by (auto simp: iterdir_def split: option.splits fsnode.splits)

lemma find_mem: "find P xs = Some x \<Longrightarrow> x \<in> set xs"
  by (auto simp: find_Some_iff)

text \<open>
  \<open>Languoid.from_ini(ini, nodes)\<close>, \<open>Languoid.from_dir(directory, nodes=nodes)\<close> and the
  loop of \<open>from_ini\<close> over \<open>directory.parents\<close> (\<open>lineage_walk\<close>; \<open>dname\<close> is
  \<open>directory.name\<close> and \<open>lin\<close> the list \<open>lineage\<close> built so far).
\<close>

function from_ini :: "path \<Rightarrow> fsnode \<Rightarrow> path \<Rightarrow> nodes \<Rightarrow> (error + Languoid) \<times> nodes"
  and from_dir :: "path \<Rightarrow> fsnode \<Rightarrow> path \<Rightarrow> nodes \<Rightarrow> (error + Languoid option) \<times> nodes"
  and lineage_walk ::
    "path \<Rightarrow> fsnode \<Rightarrow> string \<Rightarrow> path list \<Rightarrow> raw_entry list \<Rightarrow> nodes
       \<Rightarrow> (error + raw_entry list) \<times> nodes"
where
  "from_ini TREE fs ini nodes =
     (let directory = parent_of ini; c = read_ini fs ini in
      case lineage_walk TREE fs (name_of directory) (parents directory) [] nodes of
        (Inl e, nodes) \<Rightarrow> (Inl e, nodes)
      | (Inr lin, nodes) \<Rightarrow>
          (case Languoid_init TREE c (Some (rev lin)) (Some directory) of
             Inl e \<Rightarrow> (Inl e, nodes)
           | Inr res \<Rightarrow>
               (case level res of
                  Inl e \<Rightarrow> (Inl e, nodes)
                | Inr lv \<Rightarrow> (Inr res, nodes(id_of res \<mapsto> (name res, id_of res, lv))))))"
| "from_dir TREE fs directory nodes =
     (case iterdir fs directory of
        Inl e \<Rightarrow> (Inl e, nodes)
      | Inr ps \<Rightarrow>
          (case find (is_file fs) ps of
             None \<Rightarrow> (Inr None, nodes)
           | Some p \<Rightarrow>
               if suffix p \<noteq> ''.ini'' then (Inl AssertionError, nodes)
               else (case from_ini TREE fs p nodes of
                       (Inl e, nodes) \<Rightarrow> (Inl e, nodes)
                     | (Inr l, nodes) \<Rightarrow> (Inr (Some l), nodes))))"
| "lineage_walk TREE fs dname [] lin nodes = (Inr lin, nodes)"
| "lineage_walk TREE fs dname (p # ps) lin nodes =
     (let ident = name_of p in
      if ident = dname then (Inl AssertionError, nodes)
      else if \<not> id_pattern_match ident then (Inr lin, nodes)
      else (case nodes (Some ident) of
              Some t \<Rightarrow> lineage_walk TREE fs dname ps (lin @ [t]) nodes
            | None \<Rightarrow>
                (case from_dir TREE fs p nodes of
                   (Inl e, nodes) \<Rightarrow> (Inl e, nodes)
                 | (Inr None, nodes) \<Rightarrow> (Inl AttributeError, nodes)
                 | (Inr (Some l), nodes) \<Rightarrow>
                     (case level l of
                        Inl e \<Rightarrow> (Inl e, nodes)
                      | Inr lv \<Rightarrow>
                          (let t = (name l, id_of l, lv) in
                           lineage_walk TREE fs dname ps (lin @ [t])
                             (nodes(Some ident \<mapsto> t)))))))"
  by pat_completeness auto

termination
proof (relation "inv_image (less_than <*lex*> less_than)
     (\<lambda>x. case x of
        Inl (TREE, fs, ini, nodes) \<Rightarrow> (4 * length ini + 1, 0)
      | Inr (Inl (TREE, fs, d, nodes)) \<Rightarrow> (4 * length d + 6, 0)
      | Inr (Inr (TREE, fs, dname, ps, lin, nodes)) \<Rightarrow> (maxlen ps, length ps))", goal_cases)
  case 1
  show ?case by (intro wf_inv_image wf_lex_prod wf_less_than)
next
  case (2 TREE fs ini nodes x xa)
  then show ?case using maxlen_parents[of ini] by (simp add: parent_of_def)
next
  case (3 TREE fs directory nodes x2 x2a)
  then show ?case using iterdir_length[OF _ find_mem] by fastforce
next
  case 4
  then show ?case by (auto simp: max_def)
next
  case 5
  then show ?case by auto
next
  case 6
  then show ?case by (auto simp: max_def)
qed


subsection \<open>The default dictionary\<close>

text \<open>
  \<open>def from_ini(cls, ini, nodes={})\<close>: the default value of \<open>nodes\<close> is one dictionary,
  created when the class body runs, and every call that omits \<open>nodes\<close> reads and
  updates that same dictionary. \<open>dflt\<close> is its current content. \<open>from_ini_call\<close> is a
  call of \<open>from_ini\<close> with the argument given (\<open>Some n\<close>) or omitted (\<open>None\<close>); it
  returns the result, the caller's dictionary after the call and the default
  dictionary after the call.
\<close>

definition from_ini_call ::
  "path \<Rightarrow> fsnode \<Rightarrow> path \<Rightarrow> nodes option \<Rightarrow> nodes
     \<Rightarrow> (error + Languoid) \<times> nodes option \<times> nodes" where
  "from_ini_call TREE fs ini arg dflt =
     (case arg of
        None \<Rightarrow> (case from_ini TREE fs ini dflt of (r, d) \<Rightarrow> (r, None, d))
      | Some n \<Rightarrow> (case from_ini TREE fs ini n of (r, n') \<Rightarrow> (r, Some n', dflt)))"

subsection \<open>Derived properties\<close>

text \<open>
  \<open>Languoid.ancestors\<close>, \<open>parent\<close> and \<open>family\<close>. \<open>Languoid.from_dir(parent)\<close> passes no
  dictionary, so the loads run on the default one. An element of the list is what
  \<open>from_dir\<close> returned, which is None for a directory without files.
\<close>

fun ancestors_loop ::
  "path \<Rightarrow> fsnode \<Rightarrow> path list \<Rightarrow> Languoid option list \<Rightarrow> nodes
     \<Rightarrow> (error + Languoid option list) \<times> nodes" where
  "ancestors_loop TREE fs [] res dflt = (Inr res, dflt)"
| "ancestors_loop TREE fs (p # ps) res dflt =
     (if id_pattern_match (name_of p)
      then (case from_dir TREE fs p dflt of
              (Inl e, dflt) \<Rightarrow> (Inl e, dflt)
            | (Inr l, dflt) \<Rightarrow> ancestors_loop TREE fs ps (res @ [l]) dflt)
      else (Inr res, dflt))"

definition ancestors ::
  "path \<Rightarrow> fsnode \<Rightarrow> Languoid \<Rightarrow> nodes \<Rightarrow> (error + Languoid option list) \<times> nodes" where
  "ancestors TREE fs l dflt =
     (case ancestors_loop TREE fs (parents (dir l)) [] dflt of
        (Inl e, dflt) \<Rightarrow> (Inl e, dflt)
      | (Inr res, dflt) \<Rightarrow> (Inr (rev res), dflt))"

definition parent ::
  "path \<Rightarrow> fsnode \<Rightarrow> Languoid \<Rightarrow> nodes \<Rightarrow> (error + Languoid option) \<times> nodes" where
  "parent TREE fs l dflt =
     (case ancestors TREE fs l dflt of
        (Inl e, dflt) \<Rightarrow> (Inl e, dflt)
      | (Inr ancs, dflt) \<Rightarrow> (Inr (if ancs \<noteq> [] then last ancs else None), dflt))"

definition family_of ::
  "path \<Rightarrow> fsnode \<Rightarrow> Languoid \<Rightarrow> nodes \<Rightarrow> (error + Languoid option) \<times> nodes" where
  "family_of TREE fs l dflt =
     (case ancestors TREE fs l dflt of
        (Inl e, dflt) \<Rightarrow> (Inl e, dflt)
      | (Inr ancs, dflt) \<Rightarrow> (Inr (if ancs \<noteq> [] then hd ancs else None), dflt))"

subsection \<open>Finding a node\<close>

text \<open>
  \<open>walk(tree, mode='dirs')\<close> of \<open>clldutils.path\<close> runs \<open>os.walk\<close> top-down and yields, for
  every directory it visits, the paths of its subdirectories; \<open>os.walk\<close> visits the
  top directory and then each subdirectory in turn, the same way.
\<close>

fun walk_dirs :: "path \<Rightarrow> fsnode \<Rightarrow> path list"
  and walk_subdirs :: "path \<Rightarrow> (string \<times> fsnode) list \<Rightarrow> path list" where
  "walk_dirs dirpath (File c) = []"
| "walk_dirs dirpath (Dir es) =
     map (\<lambda>(n, e). dirpath @ [n]) (filter (\<lambda>(n, e). case e of Dir x \<Rightarrow> True | File c \<Rightarrow> False) es)
     @ walk_subdirs dirpath es"
| "walk_subdirs dirpath [] = []"
| "walk_subdirs dirpath ((n, e) # es) = walk_dirs (dirpath @ [n]) e @ walk_subdirs dirpath es"

text \<open>\<open>find_languoid(tree, glottocode)\<close>; walking a path that does not exist yields nothing.\<close>

definition find_languoid ::
  "path \<Rightarrow> fsnode \<Rightarrow> path \<Rightarrow> string \<Rightarrow> nodes \<Rightarrow> (error + Languoid option) \<times> nodes" where
  "find_languoid TREE fs tree glottocode dflt =
     (case lookup fs tree of
        None \<Rightarrow> (Inr None, dflt)
      | Some n \<Rightarrow>
          (case find (\<lambda>fname. name_of fname = glottocode) (walk_dirs tree n) of
             None \<Rightarrow> (Inr None, dflt)
           | Some fname \<Rightarrow> from_dir TREE fs fname dflt))"

section \<open>Reference predicates\<close>

text \<open>
  A lineage entry is valid when its id passes the identifier pattern and its level is
  a member of the enum or the value string of one.
\<close>

fun valid_level :: "level_val \<Rightarrow> bool" where
  "valid_level (LvEnum l) = True"
| "valid_level (LvStr s) = (s = ''family'' \<or> s = ''language'' \<or> s = ''dialect'')"
| "valid_level LvNone = False"

fun entry_valid :: "raw_entry \<Rightarrow> bool" where
  "entry_valid (n, i, lv) =
     ((case i of None \<Rightarrow> False | Some s \<Rightarrow> id_pattern_match s) \<and> valid_level lv)"

text \<open>
  The identifier pattern in words: four characters that are lowercase letters or digits
  followed by four digits (\<open>code8\<close>), or the literal \<open>NOCODE\<close>, or \<open>NOCODE_\<close> followed by
  a non-empty suffix of letters, digits and hyphens (\<open>nocode_suffix\<close>).
\<close>

definition is_digit :: "char \<Rightarrow> bool" where
  "is_digit c = (48 \<le> (of_char c :: nat) \<and> (of_char c :: nat) \<le> 57)"

definition is_lower :: "char \<Rightarrow> bool" where
  "is_lower c = (97 \<le> (of_char c :: nat) \<and> (of_char c :: nat) \<le> 122)"

definition is_upper :: "char \<Rightarrow> bool" where
  "is_upper c = (65 \<le> (of_char c :: nat) \<and> (of_char c :: nat) \<le> 90)"

definition code8 :: "string \<Rightarrow> bool" where
  "code8 s = (length s = 8 \<and> list_all (\<lambda>c. is_lower c \<or> is_digit c) (take 4 s)
               \<and> list_all is_digit (drop 4 s))"

definition nocode_suffix :: "string \<Rightarrow> bool" where
  "nocode_suffix s = (take 7 s = ''NOCODE_'' \<and> drop 7 s \<noteq> []
          \<and> list_all (\<lambda>c. is_upper c \<or> is_lower c \<or> is_digit c \<or> c = CHR ''-'') (drop 7 s))"

definition id_spec :: "string \<Rightarrow> bool" where
  "id_spec s = (code8 s \<or> s = ''NOCODE'' \<or> nocode_suffix s)"

section \<open>Example data\<close>


definition dialect_example :: "entry list \<Rightarrow> Languoid" where
  "dialect_example lin =
     \<lparr>lineage = lin, cfg = [(''name'', ''Bar''), (''glottocode'', ''wxyz5678''),
                            (''level'', ''dialect'')], dir = []\<rparr>"


text \<open>What \<open>from_lff\<close> builds for a dialect record below three segments.\<close>

definition lff_example :: Languoid where
  "lff_example =
     \<lparr>lineage = [(Some ''Foo'', ''abcd1234'', language), (Some ''Bar'', ''efgh5678'', dialect),
                 (Some ''Baz'', ''ijkl9012'', dialect)],
      cfg = [(''name'', ''Qux''), (''glottocode'', ''wxyz5678''), (''level'', ''dialect'')],
      dir = [''tree'', ''abcd1234'', ''efgh5678'', ''ijkl9012'']\<rparr>"

text \<open>A descriptor file with a name, a glottocode and a level.\<close>

definition descriptor :: "string \<Rightarrow> string \<Rightarrow> string \<Rightarrow> fsnode" where
  "descriptor n i lv = File [(''name'', n), (''glottocode'', i), (''level'', lv)]"

text \<open>
  A tree in which \<open>root/abcd1234\<close> holds two descriptor files and \<open>root/efgh5678\<close>
  holds no file, only a subdirectory.
\<close>

definition files_example :: fsnode where
  "files_example =
     Dir [(''root'', Dir
       [(''abcd1234'', Dir [(''abcd1234.ini'', descriptor ''First'' ''abcd1234'' ''family''),
                            (''other.ini'', descriptor ''Second'' ''abcd1234'' ''family'')]),
        (''efgh5678'', Dir [(''ijkl9012'', Dir [])])])]"

text \<open>
  The tree with the node \<open>xyz19999\<close> stored at \<open>root/fam/lang5678/xyz19999\<close>, for a given
  name \<open>fam\<close> of the top directory, and a Languoid given by its fields.
\<close>

definition tree_example :: "string \<Rightarrow> fsnode" where
  "tree_example fam =
     Dir [(''root'', Dir
       [(fam, Dir
          [(fam @ ''.ini'', descriptor ''Fam'' fam ''family''),
           (''lang5678'', Dir
              [(''lang5678.ini'', descriptor ''Lang'' ''lang5678'' ''language''),
               (''xyz19999'', Dir
                  [(''xyz19999.ini'', descriptor ''Xyz'' ''xyz19999'' ''dialect'')])])])])]"

definition node_example :: "string \<Rightarrow> string \<Rightarrow> string \<Rightarrow> entry list \<Rightarrow> path \<Rightarrow> Languoid" where
  "node_example n i lv lin d =
     \<lparr>lineage = lin, cfg = [(''name'', n), (''glottocode'', i), (''level'', lv)], dir = d\<rparr>"

text \<open>
  The node \<open>xyz19999\<close> as loaded from the example tree with top directory \<open>abc1fam1\<close>
  and with top directory \<open>abcd1234\<close>.
\<close>

definition xyz_invalid :: Languoid where
  "xyz_invalid = node_example ''Xyz'' ''xyz19999'' ''dialect''
     [(Some ''Lang'', ''lang5678'', language)]
     [''root'', ''abc1fam1'', ''lang5678'', ''xyz19999'']"

definition xyz_valid :: Languoid where
  "xyz_valid = node_example ''Xyz'' ''xyz19999'' ''dialect''
     [(Some ''Fam'', ''abcd1234'', family), (Some ''Lang'', ''lang5678'', language)]
     [''root'', ''abcd1234'', ''lang5678'', ''xyz19999'']"

text \<open>
  Two trees that both hold the family \<open>abcd1234\<close>, named \<open>Old\<close> under
  \<open>languoids/tree\<close> and \<open>New\<close> under \<open>build/tree\<close>.
\<close>

definition two_trees :: fsnode where
  "two_trees =
     Dir [(''languoids'', Dir [(''tree'', Dir [(''abcd1234'', Dir
            [(''abcd1234.ini'', descriptor ''Old'' ''abcd1234'' ''family''),
             (''efgh5678'', Dir
                [(''efgh5678.ini'', descriptor ''E'' ''efgh5678'' ''language'')])])])]),
          (''build'', Dir [(''tree'', Dir [(''abcd1234'', Dir
            [(''abcd1234.ini'', descriptor ''New'' ''abcd1234'' ''family''),
             (''ijkl9012'', Dir
                [(''ijkl9012.ini'', descriptor ''I'' ''ijkl9012'' ''language'')])])])])]"

section \<open>Properties\<close>

subsection \<open>Validation of the lineage at construction\<close>

lemma valid_level_iff: "valid_level lv \<longleftrightarrow> (\<exists>l. Level_call lv = Inr l)"
  by (cases lv) auto

lemma entry_check_Inl: "entry_check x = Inl e \<Longrightarrow> \<not> entry_valid x"
  by (cases x rule: entry_check.cases) (auto simp: valid_level_iff split: if_splits sum.splits)

lemma entry_check_Inr: "entry_check x = Inr b \<Longrightarrow> b = entry_valid x"
  by (cases x rule: entry_check.cases) (auto simp: valid_level_iff split: if_splits sum.splits)

lemma check_comprehension_Inl:
  "comprehension entry_check lin = Inl e \<Longrightarrow> \<not> list_all entry_valid lin"
  by (induction lin) (auto split: sum.splits dest: entry_check_Inl)

lemma check_comprehension_Inr:
  "comprehension entry_check lin = Inr bs \<Longrightarrow> list_all (\<lambda>b. b) bs = list_all entry_valid lin"
  by (induction lin arbitrary: bs) (auto split: sum.splits dest: entry_check_Inr)

lemma entry_store_valid: "entry_valid x \<Longrightarrow> \<exists>y. entry_store x = Inr y"
  by (cases x rule: entry_store.cases) (auto simp: valid_level_iff)

lemma store_comprehension_valid:
  "list_all entry_valid lin \<Longrightarrow> \<exists>st. comprehension entry_store lin = Inr st"
proof (induction lin)
  case Nil
  then show ?case by simp
next
  case (Cons x xs)
  then obtain y st where "entry_store x = Inr y" "comprehension entry_store xs = Inr st"
    using entry_store_valid by fastforce
  then show ?case by simp
qed

text \<open>
  C8. The constructor raises exactly when some entry of the lineage it is given is not
  valid (its id fails the identifier pattern, or is None, or its level is not a valid
  level); no Languoid is returned then. With every entry valid (or no lineage) it
  returns a Languoid.
\<close>

theorem Languoid_init_fails_iff_invalid_entry:
  "isl (Languoid_init TREE c lin d)
     \<longleftrightarrow> \<not> list_all entry_valid (case lin of None \<Rightarrow> [] | Some xs \<Rightarrow> xs)"
proof (cases "comprehension entry_check (case lin of None \<Rightarrow> [] | Some xs \<Rightarrow> xs)")
  case (Inl e)
  then show ?thesis
    using check_comprehension_Inl[OF Inl] by (simp add: Languoid_init_def)
next
  case (Inr bs)
  show ?thesis
  proof (cases "list_all entry_valid (case lin of None \<Rightarrow> [] | Some xs \<Rightarrow> xs)")
    case True
    with store_comprehension_valid[OF True] check_comprehension_Inr[OF Inr] Inr
    show ?thesis by (auto simp: Languoid_init_def)
  next
    case False
    with check_comprehension_Inr[OF Inr] Inr
    show ?thesis by (auto simp: Languoid_init_def)
  qed
qed

text \<open>
  The theorem at two lineages: one whose id has seven characters, where the constructor
  raises, and a valid one, where it returns.
\<close>

theorem Languoid_init_fails_iff_invalid_entry_witness:
  "isl (Languoid_init [''tree''] [] (Some [(Some ''A'', Some ''abcd123'', LvEnum family)]) None)
   \<and> \<not> isl (Languoid_init [''tree''] []
              (Some [(Some ''A'', Some ''abcd1234'', LvStr ''family'')]) None)"
proof -
  have bad: "\<not> list_all entry_valid [(Some ''A'', Some ''abcd123'', LvEnum family)]"
    by code_simp
  have good: "list_all entry_valid [(Some ''A'', Some ''abcd1234'', LvStr ''family'')]"
    by code_simp
  show ?thesis
    using bad good
      Languoid_init_fails_iff_invalid_entry
        [of "[''tree'']" "[]" "Some [(Some ''A'', Some ''abcd123'', LvEnum family)]" None]
      Languoid_init_fails_iff_invalid_entry
        [of "[''tree'']" "[]" "Some [(Some ''A'', Some ''abcd1234'', LvStr ''family'')]" None]
    by simp
qed

subsection \<open>The derived directory\<close>

lemma Languoid_init_derived_dir:
  "Languoid_init TREE c lin None = Inr l \<Longrightarrow> dir l = TREE @ map (\<lambda>(n, i, lv). i) (lineage l)"
  by (auto simp: Languoid_init_def Let_def split: sum.splits if_splits)

text \<open>
  C1. Without a directory argument the constructor sets \<open>dir\<close> to \<open>TREE\<close> followed by the
  ids of the lineage only. For the node \<open>wxyz5678\<close> below \<open>abcd1234\<close>, built by the
  constructor or by \<open>from_lff\<close>, that is \<open>tree/abcd1234\<close>: the node's own id is not the
  last component.
\<close>

theorem derived_dir_omits_own_id:
  "map_sum (\<lambda>e. e) (\<lambda>l. (id_of l, dir l))
     (Languoid_init [''tree''] [(''name'', ''Bar''), (''glottocode'', ''wxyz5678'')]
        (Some [(Some ''Proto-Foo'', Some ''abcd1234'', LvEnum family)]) None)
   = Inr (Some ''wxyz5678'', [''tree'', ''abcd1234''])
   \<and> map_sum (\<lambda>e. e) (\<lambda>l. (id_of l, dir l))
     (from_lff [''tree''] (Some ''Proto-Foo [abcd1234]'') ''Bar [wxyz5678][xyz]'' dialect)
   = Inr (Some ''wxyz5678'', [''tree'', ''abcd1234''])"
  by code_simp

subsection \<open>The group label\<close>

lemma group_lineage_run:
  assumes "lin = pre @ run"
    and "list_all (\<lambda>x. snd (snd x) \<noteq> family) run"
    and "pre = [] \<or> snd (snd (last pre)) = family"
  shows "group_lineage (LvEnum dialect) lin = run"
proof -
  let ?P = "\<lambda>x :: entry. snd (snd x) \<noteq> family"
  have stop: "takeWhile ?P (rev pre) = []"
  proof (cases "pre = []")
    case True
    then show ?thesis by simp
  next
    case False
    with assms(3) have "snd (snd (hd (rev pre))) = family"
      by (simp add: hd_rev)
    with False show ?thesis by (simp add: takeWhile_eq_Nil_iff)
  qed
  have "takeWhile ?P (rev run @ rev pre) = rev run @ takeWhile ?P (rev pre)"
  proof (rule takeWhile_append2)
    fix x assume "x \<in> set (rev run)"
    with assms(2) show "?P x" by (simp add: list_all_iff)
  qed
  with stop have "takeWhile ?P (rev lin) = rev run"
    using assms(1) by simp
  then show ?thesis
    by (simp add: group_lineage_def)
qed

lemma group_item_nonempty: "group_item x \<noteq> []"
  by (cases x) simp

lemma join_Cons_starts: "\<exists>r. join sep (x # xs) = x @ r"
  by (cases xs) auto

lemma join_items_nonempty: "xs \<noteq> [] \<Longrightarrow> join sep (map group_item xs) \<noteq> []"
proof (cases xs)
  case Nil
  assume "xs \<noteq> []"
  with Nil show ?thesis by simp
next
  case (Cons y ys)
  obtain r where "join sep (group_item y # map group_item ys) = group_item y @ r"
    using join_Cons_starts by blast
  with Cons show ?thesis by (simp add: group_item_nonempty)
qed

text \<open>
  C5. For a dialect whose lineage splits into a part that is empty or ends in a
  family-level entry, followed by a non-empty run of entries none of which is
  family-level, \<open>lff_group\<close> returns the comma-space join of \<open>Name [id]\<close> over exactly
  that run, in root-first order. (A name that is None prints as \<open>None\<close>.)
\<close>

theorem lff_group_dialect_run:
  assumes "level l = Inr (LvEnum dialect)"
    and "lineage l = pre @ run"
    and "run \<noteq> []"
    and "list_all (\<lambda>x. snd (snd x) \<noteq> family) run"
    and "pre = [] \<or> snd (snd (last pre)) = family"
  shows "lff_group l = Inr (join '', '' (map group_item run))"
proof -
  have "group_lineage (LvEnum dialect) (lineage l) = run"
    using group_lineage_run[OF assms(2) assms(4) assms(5)] .
  moreover have "join '', '' (map group_item run) \<noteq> []"
    using join_items_nonempty[OF assms(3)] .
  moreover have "lineage l \<noteq> []"
    using assms(2,3) by simp
  ultimately show ?thesis
    using assms(1) by (simp add: lff_group_def)
qed

text \<open>The theorem at the lineage family A, language B, dialect C of a dialect.\<close>

theorem lff_group_dialect_run_witness:
  "lff_group (dialect_example [(Some ''A'', ''abcd1234'', family), (Some ''B'', ''efgh5678'', language),
                               (Some ''C'', ''ijkl9012'', dialect)])
   = Inr ''B [efgh5678], C [ijkl9012]''"
proof -
  let ?pre = "[(Some ''A'', ''abcd1234'', family)]"
  let ?run = "[(Some ''B'', ''efgh5678'', language), (Some ''C'', ''ijkl9012'', dialect)]"
  have 1: "level (dialect_example (?pre @ ?run)) = Inr (LvEnum dialect)"
    by (simp add: level_def get_core_def dialect_example_def)
  have 2: "lineage (dialect_example (?pre @ ?run)) = ?pre @ ?run"
    by (simp add: dialect_example_def)
  have 3: "?run \<noteq> []" by simp
  have 4: "list_all (\<lambda>x. snd (snd x) \<noteq> family) ?run" by simp
  have 5: "?pre = [] \<or> snd (snd (last ?pre)) = family" by simp
  show ?thesis
    using lff_group_dialect_run[OF 1 2 3 4 5] by simp
qed

text \<open>
  When the run is empty, that is when the last lineage entry of the dialect is
  family-level, the join of the run is the empty string but \<open>lff_group\<close> returns the
  literal \<open>ERROR [-unclassified-]\<close>.
\<close>

theorem lff_group_dialect_family_parent_counterexample:
  "lff_group (dialect_example [(Some ''A'', ''abcd1234'', family)]) = Inr ''ERROR [-unclassified-]''
   \<and> lff_group (dialect_example [(Some ''A'', ''abcd1234'', family)])
       \<noteq> Inr (join '', '' (map group_item []))"
  by (simp add: lff_group_def level_def get_core_def dialect_example_def group_lineage_def)





subsection \<open>Levels assigned by the flat-format parser\<close>

lemma lff_lineage_rest_levels:
  "lff_lineage lv (Suc i) comps = Inr lin \<Longrightarrow>
   map (\<lambda>x. snd (snd x)) lin = replicate (length comps) (LvEnum (if lv = dialect then dialect else family))"
proof (induction comps arbitrary: i lin)
  case Nil
  then show ?case by simp
next
  case (Cons c cs)
  then show ?case
    by (auto simp: Let_def split: sum.splits prod.splits if_splits)
qed

lemma lff_lineage_levels:
  assumes "lff_lineage lv 0 comps = Inr lin" and "comps \<noteq> []"
  shows "map (\<lambda>x. snd (snd x)) lin =
           (if lv = dialect then LvEnum language # replicate (length comps - 1) (LvEnum dialect)
            else replicate (length comps) (LvEnum family))"
proof -
  from assms(2) obtain c cs where comps: "comps = c # cs" by (cases comps) auto
  from assms(1) obtain n i rest where
    rest: "lff_lineage lv (Suc 0) cs = Inr rest"
    and lin: "lin = (Some n, Some i, LvEnum (if lv = dialect then language else family)) # rest"
    unfolding comps by (auto simp: Let_def split: sum.splits prod.splits if_splits)
  from lff_lineage_rest_levels[OF rest] lin comps show ?thesis by auto
qed

lemma entry_store_levels:
  "comprehension entry_store lin = Inr st \<Longrightarrow> map (\<lambda>x. snd (snd x)) lin = map LvEnum lvs \<Longrightarrow>
   map (\<lambda>x. snd (snd x)) st = lvs"
proof (induction lin arbitrary: st lvs)
  case Nil
  then show ?case by simp
next
  case (Cons x xs)
  obtain n i lv where x: "x = (n, i, lv)" by (cases x)
  from Cons.prems(2) obtain v vs where lvs: "lvs = v # vs" "lv = LvEnum v"
    "map (\<lambda>x. snd (snd x)) xs = map LvEnum vs"
    using x by (cases lvs) auto
  from Cons.prems(1) obtain j st' where "i = Some j" "comprehension entry_store xs = Inr st'"
    "st = (n, j, v) # st'"
    using x lvs by (cases i) (auto split: sum.splits)
  with Cons.IH[OF _ lvs(3)] lvs show ?case by simp
qed

lemma Languoid_init_stored:
  "Languoid_init TREE c (Some lin) d = Inr l \<Longrightarrow> comprehension entry_store lin = Inr (lineage l)"
  by (auto simp: Languoid_init_def split: sum.splits if_splits)

lemma split_from_nonempty: "split_from sep acc s \<noteq> []"
  by (induction sep acc s rule: split_from.induct) auto

lemma from_lff_lineage:
  assumes "from_lff TREE (Some p) name_and_codes lv = Inr l" and "p \<noteq> []"
  shows "\<exists>lin. lff_lineage lv 0 (split p ''], '') = Inr lin
               \<and> comprehension entry_store lin = Inr (lineage l)"
  using assms
  by (auto simp: from_lff_def Let_def set_level_def set_iso_def set_core_def
        split: sum.splits prod.splits if_splits dest!: Languoid_init_stored)

text \<open>
  C2. When \<open>from_lff\<close> returns for a lineage prefix that is neither None nor empty and
  has n segments (the pieces of the prefix between the separators \<open>], \<close>), the
  lineage has n entries: for a dialect the first is language-level and every later one
  dialect-level; for any other level all are family-level. With prefix
  \<open>Proto-Foo [abcd1234]\<close>, record \<open>Bar [wxyz5678][xyz]\<close> and level dialect the lineage is
  (Proto-Foo, abcd1234, language) and iso is \<open>xyz\<close>.
\<close>

theorem from_lff_lineage_levels:
  "(from_lff TREE (Some p) name_and_codes lv = Inr l \<and> p \<noteq> [] \<longrightarrow>
      map (\<lambda>x. snd (snd x)) (lineage l) =
        (if lv = dialect then language # replicate (length (split p ''], '') - 1) dialect
         else replicate (length (split p ''], '')) family))
   \<and> map_sum (\<lambda>e. e) (\<lambda>l. (lineage l, iso l))
        (from_lff TREE (Some ''Proto-Foo [abcd1234]'') ''Bar [wxyz5678][xyz]'' dialect)
       = Inr ([(Some ''Proto-Foo'', ''abcd1234'', language)], Some ''xyz'')"
proof (intro conjI impI)
  assume a: "from_lff TREE (Some p) name_and_codes lv = Inr l \<and> p \<noteq> []"
  then obtain lin where lin: "lff_lineage lv 0 (split p ''], '') = Inr lin"
    and st: "comprehension entry_store lin = Inr (lineage l)"
    using from_lff_lineage by blast
  have ne: "split p ''], '' \<noteq> []"
    by (simp add: split_def split_from_nonempty)
  let ?n = "length (split p ''], '')"
  have "map (\<lambda>x. snd (snd x)) lin =
          map LvEnum (if lv = dialect then language # replicate (?n - 1) dialect
                      else replicate ?n family)"
    using lff_lineage_levels[OF lin ne] by simp
  from entry_store_levels[OF st this]
  show "map (\<lambda>x. snd (snd x)) (lineage l) =
        (if lv = dialect then language # replicate (?n - 1) dialect else replicate ?n family)" .
next
  show "map_sum (\<lambda>e. e) (\<lambda>l. (lineage l, iso l))
        (from_lff TREE (Some ''Proto-Foo [abcd1234]'') ''Bar [wxyz5678][xyz]'' dialect)
       = Inr ([(Some ''Proto-Foo'', ''abcd1234'', language)], Some ''xyz'')"
    by code_simp
qed

text \<open>The theorem at a dialect record below three segments.\<close>

theorem from_lff_lineage_levels_witness:
  "from_lff [''tree''] (Some ''Foo [abcd1234], Bar [efgh5678], Baz [ijkl9012]'')
     ''Qux [wxyz5678][]'' dialect = Inr lff_example
   \<and> ''Foo [abcd1234], Bar [efgh5678], Baz [ijkl9012]'' \<noteq> []
   \<and> map (\<lambda>x. snd (snd x)) (lineage lff_example) = [language, dialect, dialect]"
proof -
  have r: "from_lff [''tree''] (Some ''Foo [abcd1234], Bar [efgh5678], Baz [ijkl9012]'')
             ''Qux [wxyz5678][]'' dialect = Inr lff_example"
    by code_simp
  have n: "length (split ''Foo [abcd1234], Bar [efgh5678], Baz [ijkl9012]'' ''], '') = 3"
    by code_simp
  show ?thesis
    using r n
      from_lff_lineage_levels
        [of "[''tree'']" "''Foo [abcd1234], Bar [efgh5678], Baz [ijkl9012]''"
            "''Qux [wxyz5678][]''" dialect lff_example]
    by (simp add: numeral_3_eq_3)
qed

text \<open>
  The second segment of a dialect's prefix is assigned level dialect, not family.
\<close>

theorem from_lff_second_segment_counterexample:
  "map_sum (\<lambda>e. e) (\<lambda>l. map (\<lambda>x. snd (snd x)) (lineage l))
     (from_lff [''tree''] (Some ''Foo [abcd1234], Bar [efgh5678]'') ''Baz [wxyz5678][]'' dialect)
   = Inr [language, dialect]
   \<and> map_sum (\<lambda>e. e) (\<lambda>l. map (\<lambda>x. snd (snd x)) (lineage l))
     (from_lff [''tree''] (Some ''Foo [abcd1234], Bar [efgh5678]'') ''Baz [wxyz5678][]'' dialect)
   \<noteq> Inr [language, family]"
  by code_simp

subsection \<open>Loading a directory\<close>

lemma find_first:
  "list_all (\<lambda>p. \<not> P p) pre \<Longrightarrow> P f \<Longrightarrow> find P (pre @ f # rest) = Some f"
  by (induction pre) auto

lemma find_none: "list_all (\<lambda>p. \<not> P p) ps \<Longrightarrow> find P ps = None"
  by (induction ps) auto

text \<open>
  C3. \<open>from_dir\<close> on a directory none of whose entries is a file returns None and
  raises nothing. On a directory with a file entry it looks at the first file in
  listing order only: it raises AssertionError when the suffix of that file is not
  \<open>.ini\<close> and otherwise returns what \<open>from_ini\<close> returns for it, whatever entries follow.
\<close>

theorem from_dir_first_file:
  "(iterdir fs d = Inr ps \<and> list_all (\<lambda>p. \<not> is_file fs p) ps
      \<longrightarrow> from_dir TREE fs d nodes = (Inr None, nodes))
   \<and> (iterdir fs d = Inr (pre @ f # rest) \<and> list_all (\<lambda>p. \<not> is_file fs p) pre \<and> is_file fs f
      \<longrightarrow> from_dir TREE fs d nodes =
            (if suffix f \<noteq> ''.ini'' then (Inl AssertionError, nodes)
             else (case from_ini TREE fs f nodes of
                     (Inl e, nodes') \<Rightarrow> (Inl e, nodes')
                   | (Inr l, nodes') \<Rightarrow> (Inr (Some l), nodes'))))"
proof (intro conjI impI)
  assume "iterdir fs d = Inr ps \<and> list_all (\<lambda>p. \<not> is_file fs p) ps"
  then show "from_dir TREE fs d nodes = (Inr None, nodes)"
    by (subst from_dir.simps) (simp add: find_none)
next
  assume "iterdir fs d = Inr (pre @ f # rest) \<and> list_all (\<lambda>p. \<not> is_file fs p) pre \<and> is_file fs f"
  then have "iterdir fs d = Inr (pre @ f # rest)" "find (is_file fs) (pre @ f # rest) = Some f"
    by (simp_all add: find_first)
  then show "from_dir TREE fs d nodes =
            (if suffix f \<noteq> ''.ini'' then (Inl AssertionError, nodes)
             else (case from_ini TREE fs f nodes of
                     (Inl e, nodes') \<Rightarrow> (Inl e, nodes')
                   | (Inr l, nodes') \<Rightarrow> (Inr (Some l), nodes')))"
    by (subst from_dir.simps) simp
qed

text \<open>The theorem at the two directories of the example tree.\<close>

theorem from_dir_first_file_witness:
  "from_dir [''tree''] files_example [''root'', ''efgh5678''] Map.empty = (Inr None, Map.empty)
   \<and> fst (from_dir [''tree''] files_example [''root'', ''abcd1234''] Map.empty)
     = Inr (Some \<lparr>lineage = [],
                  cfg = [(''name'', ''First''), (''glottocode'', ''abcd1234''), (''level'', ''family'')],
                  dir = [''root'', ''abcd1234'']\<rparr>)"
proof -
  have l: "fst (from_ini [''tree''] files_example [''root'', ''abcd1234'', ''abcd1234.ini''] Map.empty)
     = Inr \<lparr>lineage = [],
            cfg = [(''name'', ''First''), (''glottocode'', ''abcd1234''), (''level'', ''family'')],
            dir = [''root'', ''abcd1234'']\<rparr>"
    by code_simp
  have a: "iterdir files_example [''root'', ''efgh5678''] = Inr [[''root'', ''efgh5678'', ''ijkl9012'']]
           \<and> list_all (\<lambda>p. \<not> is_file files_example p) [[''root'', ''efgh5678'', ''ijkl9012'']]"
    by code_simp
  have b: "iterdir files_example [''root'', ''abcd1234'']
             = Inr ([] @ [''root'', ''abcd1234'', ''abcd1234.ini'']
                      # [[''root'', ''abcd1234'', ''other.ini'']])
           \<and> list_all (\<lambda>p. \<not> is_file files_example p) []
           \<and> is_file files_example [''root'', ''abcd1234'', ''abcd1234.ini'']"
    by code_simp
  have c: "suffix [''root'', ''abcd1234'', ''abcd1234.ini''] = ''.ini''"
    by code_simp
  show ?thesis
    using a b c l
      from_dir_first_file[where fs = files_example and d = "[''root'', ''efgh5678'']"
          and ps = "[[''root'', ''efgh5678'', ''ijkl9012'']]" and TREE = "[''tree'']"
          and nodes = Map.empty]
      from_dir_first_file[where fs = files_example and d = "[''root'', ''abcd1234'']"
          and pre = "[]" and f = "[''root'', ''abcd1234'', ''abcd1234.ini'']"
          and rest = "[[''root'', ''abcd1234'', ''other.ini'']]" and TREE = "[''tree'']"
          and nodes = Map.empty]
    by (auto split: prod.splits sum.splits)
qed

text \<open>
  Neither the directory without a descriptor file nor the one with two of them makes
  \<open>from_dir\<close> raise: the first gives None, the second the node of the file listed first.
\<close>

theorem from_dir_no_error_counterexample:
  "fst (from_dir [''tree''] files_example [''root'', ''efgh5678''] Map.empty) = Inr None
   \<and> fst (from_dir [''tree''] files_example [''root'', ''abcd1234''] Map.empty)
     = Inr (Some \<lparr>lineage = [],
                  cfg = [(''name'', ''First''), (''glottocode'', ''abcd1234''), (''level'', ''family'')],
                  dir = [''root'', ''abcd1234'']\<rparr>)"
  by code_simp

subsection \<open>Ancestors, parent and family\<close>

lemma ancestors_loop_stop:
  "list_all (\<lambda>p. \<not> id_pattern_match (name_of p)) ps \<Longrightarrow>
   ancestors_loop TREE fs ps res dflt = (Inr res, dflt)"
  by (cases ps) auto

text \<open>
  C10. For a Languoid none of whose parent path components passes the identifier
  pattern, \<open>ancestors\<close> returns the empty list and \<open>parent\<close> and \<open>family\<close> return None,
  without raising and without touching the default dictionary. When \<open>ancestors\<close>
  returns a non-empty list, \<open>parent\<close> returns its last element and \<open>family\<close> its first.
\<close>

theorem ancestors_parent_family:
  "(list_all (\<lambda>p. \<not> id_pattern_match (name_of p)) (parents (dir l)) \<longrightarrow>
      ancestors TREE fs l dflt = (Inr [], dflt)
      \<and> parent TREE fs l dflt = (Inr None, dflt)
      \<and> family_of TREE fs l dflt = (Inr None, dflt))
   \<and> (ancestors TREE fs l dflt = (Inr ancs, dflt') \<and> ancs \<noteq> [] \<longrightarrow>
      parent TREE fs l dflt = (Inr (last ancs), dflt')
      \<and> family_of TREE fs l dflt = (Inr (hd ancs), dflt'))"
proof (intro conjI impI)
  assume "list_all (\<lambda>p. \<not> id_pattern_match (name_of p)) (parents (dir l))"
  then have a: "ancestors TREE fs l dflt = (Inr [], dflt)"
    by (simp add: ancestors_def ancestors_loop_stop)
  then show "ancestors TREE fs l dflt = (Inr [], dflt)"
    and "parent TREE fs l dflt = (Inr None, dflt)"
    and "family_of TREE fs l dflt = (Inr None, dflt)"
    by (simp_all add: parent_def family_of_def)
next
  assume "ancestors TREE fs l dflt = (Inr ancs, dflt') \<and> ancs \<noteq> []"
  then show "parent TREE fs l dflt = (Inr (last ancs), dflt')"
    and "family_of TREE fs l dflt = (Inr (hd ancs), dflt')"
    by (simp_all add: parent_def family_of_def)
qed

text \<open>
  The theorem at the top node of the example tree, which has no ancestors, and at the
  node \<open>xyz19999\<close>, whose ancestors are the family node and then the language node.
\<close>

theorem ancestors_parent_family_witness:
  "ancestors [''tree''] (tree_example ''abcd1234'')
      (node_example ''Fam'' ''abcd1234'' ''family'' [] [''root'', ''abcd1234'']) Map.empty
     = (Inr [], Map.empty)
   \<and> parent [''tree''] (tree_example ''abcd1234'')
      (node_example ''Fam'' ''abcd1234'' ''family'' [] [''root'', ''abcd1234'']) Map.empty
     = (Inr None, Map.empty)
   \<and> family_of [''tree''] (tree_example ''abcd1234'')
      (node_example ''Fam'' ''abcd1234'' ''family'' [] [''root'', ''abcd1234'']) Map.empty
     = (Inr None, Map.empty)
   \<and> fst (ancestors [''tree''] (tree_example ''abcd1234'') xyz_valid Map.empty)
     = Inr [Some (node_example ''Fam'' ''abcd1234'' ''family'' [] [''root'', ''abcd1234'']),
            Some (node_example ''Lang'' ''lang5678'' ''language''
                    [(Some ''Fam'', ''abcd1234'', family)] [''root'', ''abcd1234'', ''lang5678''])]
   \<and> fst (parent [''tree''] (tree_example ''abcd1234'') xyz_valid Map.empty)
     = Inr (Some (node_example ''Lang'' ''lang5678'' ''language''
                    [(Some ''Fam'', ''abcd1234'', family)] [''root'', ''abcd1234'', ''lang5678'']))
   \<and> fst (family_of [''tree''] (tree_example ''abcd1234'') xyz_valid Map.empty)
     = Inr (Some (node_example ''Fam'' ''abcd1234'' ''family'' [] [''root'', ''abcd1234'']))"
proof -
  let ?T = "[''tree'']"
  let ?fs = "tree_example ''abcd1234''"
  let ?fam = "node_example ''Fam'' ''abcd1234'' ''family'' [] [''root'', ''abcd1234'']"
  let ?lang = "node_example ''Lang'' ''lang5678'' ''language''
                 [(Some ''Fam'', ''abcd1234'', family)] [''root'', ''abcd1234'', ''lang5678'']"
  let ?D = "snd (ancestors ?T ?fs xyz_valid Map.empty)"
  have iso: "list_all (\<lambda>p. \<not> id_pattern_match (name_of p)) (parents (dir ?fam))"
    by code_simp
  have top: "ancestors ?T ?fs ?fam Map.empty = (Inr [], Map.empty)
             \<and> parent ?T ?fs ?fam Map.empty = (Inr None, Map.empty)
             \<and> family_of ?T ?fs ?fam Map.empty = (Inr None, Map.empty)"
    using iso ancestors_parent_family[where l = ?fam and TREE = ?T and fs = ?fs
        and dflt = Map.empty]
    by simp
  have a: "fst (ancestors ?T ?fs xyz_valid Map.empty) = Inr [Some ?fam, Some ?lang]"
    by code_simp
  then have anc: "ancestors ?T ?fs xyz_valid Map.empty = (Inr [Some ?fam, Some ?lang], ?D)"
    by (metis prod.collapse)
  have ne: "[Some ?fam, Some ?lang] \<noteq> []"
    by simp
  have both: "parent ?T ?fs xyz_valid Map.empty = (Inr (last [Some ?fam, Some ?lang]), ?D)
              \<and> family_of ?T ?fs xyz_valid Map.empty = (Inr (hd [Some ?fam, Some ?lang]), ?D)"
    by (rule ancestors_parent_family[where l = xyz_valid and TREE = ?T and fs = ?fs
        and dflt = Map.empty and ancs = "[Some ?fam, Some ?lang]" and dflt' = ?D,
        THEN conjunct2, THEN mp, OF conjI[OF anc ne]])
  from both have p: "fst (parent ?T ?fs xyz_valid Map.empty) = Inr (Some ?lang)"
    by simp
  from both have f: "fst (family_of ?T ?fs xyz_valid Map.empty) = Inr (Some ?fam)"
    by simp
  from top a p f show ?thesis
    by blast
qed

subsection \<open>The lineage built from the parent directories\<close>

lemma lineage_walk_length:
  "lineage_walk TREE fs dname ps lin nodes = (Inr lin', nodes') \<Longrightarrow>
   \<exists>new. lin' = lin @ new
         \<and> length new = length (takeWhile (\<lambda>p. id_pattern_match (name_of p)) ps)"
proof (induction ps arbitrary: lin nodes)
  case Nil
  then show ?case by simp
next
  case (Cons p ps)
  show ?case
  proof (cases "id_pattern_match (name_of p)")
    case False
    with Cons.prems show ?thesis
      by (auto simp: Let_def split: if_splits)
  next
    case True
    from Cons.prems True obtain t n1 where
      "lineage_walk TREE fs dname ps (lin @ [t]) n1 = (Inr lin', nodes')"
      by (auto simp: Let_def split: if_splits option.splits prod.splits sum.splits)
    from Cons.IH[OF this] True show ?thesis
      by auto
  qed
qed

lemma from_ini_unfold:
  assumes "from_ini TREE fs ini nodes = (Inr res, nodes')"
  shows "\<exists>lin nodes1 lv.
           lineage_walk TREE fs (name_of (parent_of ini)) (parents (parent_of ini)) [] nodes
             = (Inr lin, nodes1)
           \<and> Languoid_init TREE (read_ini fs ini) (Some (rev lin)) (Some (parent_of ini)) = Inr res
           \<and> level res = Inr lv
           \<and> nodes' = nodes1(id_of res \<mapsto> (name res, id_of res, lv))"
  using assms
  by (subst (asm) from_ini.simps)
     (auto simp: Let_def split: prod.splits sum.splits)

lemma Languoid_init_fields:
  "Languoid_init TREE c (Some lin) (Some d) = Inr l \<Longrightarrow>
   comprehension entry_store lin = Inr (lineage l) \<and> cfg l = c \<and> dir l = d"
  by (auto simp: Languoid_init_def split: sum.splits if_splits)

lemma from_ini_result:
  assumes "from_ini TREE fs ini nodes = (Inr res, nodes')"
  shows "\<exists>lin nodes1 lv.
           lineage_walk TREE fs (name_of (parent_of ini)) (parents (parent_of ini)) [] nodes
             = (Inr lin, nodes1)
           \<and> length lin
               = length (takeWhile (\<lambda>p. id_pattern_match (name_of p)) (parents (parent_of ini)))
           \<and> comprehension entry_store (rev lin) = Inr (lineage res)
           \<and> cfg res = read_ini fs ini \<and> dir res = parent_of ini
           \<and> level res = Inr lv
           \<and> nodes' = nodes1(id_of res \<mapsto> (name res, id_of res, lv))"
proof -
  from from_ini_unfold[OF assms] obtain lin nodes1 lv where
    w: "lineage_walk TREE fs (name_of (parent_of ini)) (parents (parent_of ini)) [] nodes
          = (Inr lin, nodes1)"
    and i: "Languoid_init TREE (read_ini fs ini) (Some (rev lin)) (Some (parent_of ini)) = Inr res"
    and l: "level res = Inr lv"
    and n: "nodes' = nodes1(id_of res \<mapsto> (name res, id_of res, lv))"
    by blast
  from lineage_walk_length[OF w] have
    "length lin = length (takeWhile (\<lambda>p. id_pattern_match (name_of p)) (parents (parent_of ini)))"
    by auto
  with w Languoid_init_fields[OF i] l n show ?thesis
    by blast
qed

lemma parents_4: "parents [a, b, c, d] = [[a, b, c], [a, b], [a], []]"
  by (simp add: parents_def upt_rec)

lemma ancestors_invalid_family:
  assumes "dir l = [''root'', ''abc1fam1'', ''lang5678'', ''xyz19999'']"
  shows "ancestors TREE fs l dflt =
           (case from_dir TREE fs [''root'', ''abc1fam1'', ''lang5678''] dflt of
              (Inl e, d) \<Rightarrow> (Inl e, d)
            | (Inr a, d) \<Rightarrow> (Inr [a], d))"
proof -
  have v: "id_pattern_match ''lang5678''" by code_simp
  have i: "\<not> id_pattern_match ''abc1fam1''" by code_simp
  show ?thesis
    using v i by (simp add: ancestors_def assms parents_4 name_of_def split: prod.splits sum.splits)
qed

lemma ancestors_valid_family:
  assumes "dir l = [''root'', ''abcd1234'', ''lang5678'', ''xyz19999'']"
  shows "ancestors TREE fs l dflt =
           (case from_dir TREE fs [''root'', ''abcd1234'', ''lang5678''] dflt of
              (Inl e, d) \<Rightarrow> (Inl e, d)
            | (Inr a, d) \<Rightarrow>
                (case from_dir TREE fs [''root'', ''abcd1234''] d of
                   (Inl e, d') \<Rightarrow> (Inl e, d')
                 | (Inr b, d') \<Rightarrow> (Inr [b, a], d')))"
proof -
  have v: "id_pattern_match ''lang5678''" by code_simp
  have i: "id_pattern_match ''abcd1234''" by code_simp
  have r: "\<not> id_pattern_match ''root''" by code_simp
  show ?thesis
    using v i r
    by (simp add: ancestors_def assms parents_4 name_of_def split: prod.splits sum.splits)
qed

lemma from_dir_dir:
  assumes "from_dir TREE fs d nodes = (Inr (Some l), nodes')"
  shows "dir l = d"
proof -
  from assms obtain ps p where
    ps: "iterdir fs d = Inr ps" and p: "find (is_file fs) ps = Some p"
    and l: "from_ini TREE fs p nodes = (Inr l, nodes')"
    by (subst (asm) from_dir.simps)
       (auto split: sum.splits option.splits if_splits prod.splits)
  from iterdir_length[OF ps find_mem[OF p]] ps find_mem[OF p] have "parent_of p = d"
    by (auto simp: iterdir_def parent_of_def split: option.splits fsnode.splits)
  with from_ini_result[OF l] show ?thesis
    by auto
qed

lemma find_languoid_dir:
  assumes "find_languoid TREE fs tree code dflt = (Inr (Some l), dflt')"
  shows "name_of (dir l) = code"
proof -
  from assms obtain fname where "name_of fname = code"
    and "from_dir TREE fs fname dflt = (Inr (Some l), dflt')"
    by (auto simp: find_languoid_def find_Some_iff split: option.splits)
  with from_dir_dir show ?thesis
    by blast
qed

text \<open>
  C9. When \<open>from_ini\<close> returns a node, its parent walk returned a list \<open>lin\<close> with one
  triple for each leading parent component that passes the identifier pattern (the
  walk stops at the first that fails); the node's lineage is \<open>lin\<close> reversed, so
  root-first; and the dictionary returned is the one the walk left, with the node's own
  (name, id, level) stored under its id. \<open>find_languoid\<close> returns a node whose directory
  is named by the code searched. For a node stored at
  \<open>root/abc1fam1/lang5678/xyz19999\<close>, \<open>ancestors\<close> holds the node of \<open>lang5678\<close> only,
  because \<open>abc1fam1\<close> fails the identifier pattern; for a node stored at
  \<open>root/abcd1234/lang5678/xyz19999\<close> it holds the node of \<open>abcd1234\<close> and then the node
  of \<open>lang5678\<close>.
\<close>

theorem from_ini_lineage_and_ancestors:
  "(from_ini TREE fs ini nodes = (Inr res, nodes') \<longrightarrow>
      (\<exists>lin nodes1 lv.
           lineage_walk TREE fs (name_of (parent_of ini)) (parents (parent_of ini)) [] nodes
             = (Inr lin, nodes1)
           \<and> length lin
               = length (takeWhile (\<lambda>p. id_pattern_match (name_of p)) (parents (parent_of ini)))
           \<and> comprehension entry_store (rev lin) = Inr (lineage res)
           \<and> cfg res = read_ini fs ini \<and> dir res = parent_of ini
           \<and> level res = Inr lv
           \<and> nodes' = nodes1(id_of res \<mapsto> (name res, id_of res, lv))))
   \<and> (find_languoid TREE fs tree code dflt = (Inr (Some l), dflt') \<longrightarrow> name_of (dir l) = code)
   \<and> (dir l = [''root'', ''abc1fam1'', ''lang5678'', ''xyz19999''] \<longrightarrow>
        ancestors TREE fs l dflt =
           (case from_dir TREE fs [''root'', ''abc1fam1'', ''lang5678''] dflt of
              (Inl e, d) \<Rightarrow> (Inl e, d)
            | (Inr a, d) \<Rightarrow> (Inr [a], d)))
   \<and> (dir l = [''root'', ''abcd1234'', ''lang5678'', ''xyz19999''] \<longrightarrow>
        ancestors TREE fs l dflt =
           (case from_dir TREE fs [''root'', ''abcd1234'', ''lang5678''] dflt of
              (Inl e, d) \<Rightarrow> (Inl e, d)
            | (Inr a, d) \<Rightarrow>
                (case from_dir TREE fs [''root'', ''abcd1234''] d of
                   (Inl e, d') \<Rightarrow> (Inl e, d')
                 | (Inr b, d') \<Rightarrow> (Inr [b, a], d'))))"
  using from_ini_result[of TREE fs ini nodes res nodes']
    find_languoid_dir[of TREE fs tree code dflt l dflt']
    ancestors_invalid_family[of l TREE fs dflt] ancestors_valid_family[of l TREE fs dflt]
  by blast

lemma fst_case_one:
  "fst X = Inr a \<Longrightarrow>
   fst (case X of (Inl e, d) \<Rightarrow> (Inl e, d) | (Inr a, d) \<Rightarrow> (Inr [a], d)) = Inr [a]"
  by (cases X) auto

lemma fst_case_two:
  "fst X = Inr a \<Longrightarrow> fst (Y (snd X)) = Inr b \<Longrightarrow>
   fst (case X of
          (Inl e, d) \<Rightarrow> (Inl e, d)
        | (Inr a, d) \<Rightarrow> (case Y d of (Inl e, d') \<Rightarrow> (Inl e, d') | (Inr b, d') \<Rightarrow> (Inr [b, a], d')))
     = Inr [b, a]"
  by (cases X; cases "Y (snd X)") auto

text \<open>The theorem at the two example trees.\<close>

theorem from_ini_lineage_and_ancestors_witness:
  "fst (from_ini [''tree''] (tree_example ''abcd1234'')
          [''root'', ''abcd1234'', ''lang5678'', ''xyz19999'', ''xyz19999.ini''] Map.empty)
     = Inr xyz_valid
   \<and> fst (find_languoid [''tree''] (tree_example ''abcd1234'') [''root''] ''xyz19999'' Map.empty)
     = Inr (Some xyz_valid)
   \<and> name_of (dir xyz_valid) = ''xyz19999''
   \<and> fst (ancestors [''tree''] (tree_example ''abcd1234'') xyz_valid
         (snd (find_languoid [''tree''] (tree_example ''abcd1234'') [''root''] ''xyz19999''
                 Map.empty)))
     = Inr [Some (node_example ''Fam'' ''abcd1234'' ''family'' [] [''root'', ''abcd1234'']),
            Some (node_example ''Lang'' ''lang5678'' ''language''
                    [(Some ''Fam'', ''abcd1234'', family)] [''root'', ''abcd1234'', ''lang5678''])]
   \<and> fst (ancestors [''tree''] (tree_example ''abc1fam1'') xyz_invalid Map.empty)
     = Inr [Some (node_example ''Lang'' ''lang5678'' ''language'' []
                    [''root'', ''abc1fam1'', ''lang5678''])]"
proof -
  let ?T = "[''tree'']"
  let ?fs = "tree_example ''abcd1234''"
  let ?D = "snd (find_languoid ?T ?fs [''root''] ''xyz19999'' Map.empty)"
  let ?fam = "node_example ''Fam'' ''abcd1234'' ''family'' [] [''root'', ''abcd1234'']"
  let ?lang = "node_example ''Lang'' ''lang5678'' ''language''
                 [(Some ''Fam'', ''abcd1234'', family)] [''root'', ''abcd1234'', ''lang5678'']"
  let ?lang1 = "node_example ''Lang'' ''lang5678'' ''language'' []
                  [''root'', ''abc1fam1'', ''lang5678'']"
  have ini: "fst (from_ini ?T ?fs
                [''root'', ''abcd1234'', ''lang5678'', ''xyz19999'', ''xyz19999.ini''] Map.empty)
             = Inr xyz_valid"
    by code_simp
  have found: "fst (find_languoid ?T ?fs [''root''] ''xyz19999'' Map.empty) = Inr (Some xyz_valid)"
    by code_simp
  then have "find_languoid ?T ?fs [''root''] ''xyz19999'' Map.empty = (Inr (Some xyz_valid), ?D)"
    by (metis prod.collapse)
  then have nm: "name_of (dir xyz_valid) = ''xyz19999''"
    using from_ini_lineage_and_ancestors[where TREE = ?T and fs = ?fs and tree = "[''root'']"
        and code = "''xyz19999''" and dflt = Map.empty and l = xyz_valid and dflt' = ?D]
    by blast
  have dv: "dir xyz_valid = [''root'', ''abcd1234'', ''lang5678'', ''xyz19999'']"
    by (simp add: xyz_valid_def node_example_def)
  have l2: "fst (from_dir ?T ?fs [''root'', ''abcd1234'', ''lang5678''] ?D) = Inr (Some ?lang)"
    by code_simp
  have f2: "fst (from_dir ?T ?fs [''root'', ''abcd1234'']
                   (snd (from_dir ?T ?fs [''root'', ''abcd1234'', ''lang5678''] ?D)))
            = Inr (Some ?fam)"
    by code_simp
  have "ancestors ?T ?fs xyz_valid ?D =
           (case from_dir ?T ?fs [''root'', ''abcd1234'', ''lang5678''] ?D of
              (Inl e, d) \<Rightarrow> (Inl e, d)
            | (Inr a, d) \<Rightarrow>
                (case from_dir ?T ?fs [''root'', ''abcd1234''] d of
                   (Inl e, d') \<Rightarrow> (Inl e, d')
                 | (Inr b, d') \<Rightarrow> (Inr [b, a], d')))"
    using dv from_ini_lineage_and_ancestors[where TREE = ?T and fs = ?fs and l = xyz_valid
        and dflt = ?D]
    by blast
  with fst_case_two[OF l2, where Y = "from_dir ?T ?fs [''root'', ''abcd1234'']", OF f2]
  have a2: "fst (ancestors ?T ?fs xyz_valid ?D) = Inr [Some ?fam, Some ?lang]"
    by (simp only:)
  have di: "dir xyz_invalid = [''root'', ''abc1fam1'', ''lang5678'', ''xyz19999'']"
    by (simp add: xyz_invalid_def node_example_def)
  have l1: "fst (from_dir ?T (tree_example ''abc1fam1'') [''root'', ''abc1fam1'', ''lang5678'']
                   Map.empty) = Inr (Some ?lang1)"
    by code_simp
  have "ancestors ?T (tree_example ''abc1fam1'') xyz_invalid Map.empty =
           (case from_dir ?T (tree_example ''abc1fam1'') [''root'', ''abc1fam1'', ''lang5678'']
                   Map.empty of
              (Inl e, d) \<Rightarrow> (Inl e, d)
            | (Inr a, d) \<Rightarrow> (Inr [a], d))"
    using di from_ini_lineage_and_ancestors[where TREE = ?T and fs = "tree_example ''abc1fam1''"
        and l = xyz_invalid and dflt = Map.empty]
    by blast
  with fst_case_one[OF l1]
  have a1: "fst (ancestors ?T (tree_example ''abc1fam1'') xyz_invalid Map.empty)
                    = Inr [Some ?lang1]"
    by (simp only:)
  from ini found nm a2 a1 show ?thesis
    by blast
qed

text \<open>
  In the tree of the claim, \<open>find_languoid\<close> returns the node \<open>xyz19999\<close> and its
  ancestors are the node of \<open>lang5678\<close> alone, not the nodes of \<open>abc1fam1\<close> and \<open>lang5678\<close>.
\<close>

theorem ancestors_invalid_family_counterexample:
  "fst (find_languoid [''tree''] (tree_example ''abc1fam1'') [''root''] ''xyz19999'' Map.empty)
     = Inr (Some xyz_invalid)
   \<and> fst (ancestors [''tree''] (tree_example ''abc1fam1'') xyz_invalid
         (snd (find_languoid [''tree''] (tree_example ''abc1fam1'') [''root''] ''xyz19999''
                 Map.empty)))
     = Inr [Some (node_example ''Lang'' ''lang5678'' ''language'' []
                    [''root'', ''abc1fam1'', ''lang5678''])]
   \<and> fst (ancestors [''tree''] (tree_example ''abc1fam1'') xyz_invalid
         (snd (find_languoid [''tree''] (tree_example ''abc1fam1'') [''root''] ''xyz19999''
                 Map.empty)))
     \<noteq> Inr [Some (node_example ''Fam'' ''abc1fam1'' ''family'' [] [''root'', ''abc1fam1'']),
             Some (node_example ''Lang'' ''lang5678'' ''language'' []
                    [''root'', ''abc1fam1'', ''lang5678''])]"
  by code_simp

subsection \<open>The dictionary of loaded ancestors\<close>

lemma dom_mono:
  "dom nodes \<subseteq> dom (snd (from_ini TREE fs ini nodes))"
  "dom nodes \<subseteq> dom (snd (from_dir TREE fs d nodes))"
  "dom nodes \<subseteq> dom (snd (lineage_walk TREE fs dname ps lin nodes))"
proof (induction TREE fs ini nodes and TREE fs d nodes and TREE fs dname ps lin nodes
       rule: from_ini_from_dir_lineage_walk.induct)
  case (1 TREE fs ini nodes)
  from 1[OF refl refl] show ?case
    by (subst from_ini.simps) (auto simp: Let_def split: prod.splits sum.splits)
next
  case (2 TREE fs directory nodes)
  show ?case
  proof (cases "iterdir fs directory")
    case (Inl e)
    then show ?thesis by (subst from_dir.simps) simp
  next
    case (Inr ps)
    show ?thesis
    proof (cases "find (is_file fs) ps")
      case None
      with Inr show ?thesis by (subst from_dir.simps) simp
    next
      case (Some p)
      show ?thesis
      proof (cases "suffix p = ''.ini''")
        case True
        with 2[OF Inr Some] Inr Some show ?thesis
          by (subst from_dir.simps) (auto split: prod.splits sum.splits)
      next
        case False
        with Inr Some show ?thesis by (subst from_dir.simps) simp
      qed
    qed
  qed
next
  case (3 TREE fs dname lin nodes)
  show ?case by simp
next
  case (4 TREE fs dname p ps lin nodes)
  show ?case
  proof (cases "name_of p \<noteq> dname \<and> id_pattern_match (name_of p)")
    case False
    then show ?thesis by (auto simp: Let_def)
  next
    case True
    show ?thesis
    proof (cases "nodes (Some (name_of p))")
      case (Some t)
      with 4(3)[OF refl _ _ Some] True show ?thesis
        by (simp add: Let_def)
    next
      case None
      from 4(1)[OF refl _ _ None] True
      have d: "dom nodes \<subseteq> dom (snd (from_dir TREE fs p nodes))"
        by simp
      obtain r y where fd: "from_dir TREE fs p nodes = (r, y)"
        by (cases "from_dir TREE fs p nodes")
      show ?thesis
      proof (cases r)
        case (Inl e)
        with d fd None True show ?thesis by (simp add: Let_def)
      next
        case (Inr b)
        show ?thesis
        proof (cases b)
          case None': None
          with d fd None True Inr show ?thesis by (simp add: Let_def)
        next
          case (Some l)
          show ?thesis
          proof (cases "level l")
            case (Inl e)
            with d fd None True Inr Some show ?thesis by (simp add: Let_def)
          next
            case lv: (Inr ba)
            let ?t = "(name l, id_of l, ba)"
            let ?y = "y(Some (name_of p) \<mapsto> ?t)"
            from True have a: "name_of p \<noteq> dname" and b: "\<not> \<not> id_pattern_match (name_of p)"
              by simp_all
            have "dom ?y \<subseteq> dom (snd (lineage_walk TREE fs dname ps (lin @ [?t]) ?y))"
              by (rule 4(2)[OF refl a b None fd[symmetric] Inr Some lv refl])
            moreover have "dom nodes \<subseteq> dom ?y"
              using d fd by auto
            moreover have "lineage_walk TREE fs dname (p # ps) lin nodes
                           = lineage_walk TREE fs dname ps (lin @ [?t]) ?y"
              using fd None True Inr Some lv by (simp add: Let_def)
            ultimately show ?thesis
              by (simp only:)
          qed
        qed
      qed
    qed
  qed
qed


text \<open>
  C4. A call of \<open>from_ini\<close> that omits \<open>nodes\<close> runs on the current content of the
  default dictionary and leaves its additions there: no key is ever removed. A call
  that passes a dictionary runs on that one and leaves the default dictionary as it was.
\<close>

theorem from_ini_call_shared_default:
  "(from_ini_call TREE fs ini None dflt = (r, a, dflt') \<longrightarrow>
      a = None \<and> from_ini TREE fs ini dflt = (r, dflt') \<and> dom dflt \<subseteq> dom dflt')
   \<and> (from_ini_call TREE fs ini (Some n) dflt = (r, a, dflt') \<longrightarrow>
      dflt' = dflt \<and> (\<exists>n'. a = Some n' \<and> from_ini TREE fs ini n = (r, n') \<and> dom n \<subseteq> dom n'))"
  using dom_mono(1)[of dflt TREE fs ini] dom_mono(1)[of n TREE fs ini]
  by (auto simp: from_ini_call_def split: prod.splits)

text \<open>
  The theorem at two calls that omit \<open>nodes\<close> one after the other, and at a call that
  passes an empty dictionary.
\<close>

theorem from_ini_call_shared_default_witness:
  "fst (snd (from_ini_call [''tree''] two_trees
               [''build'', ''tree'', ''abcd1234'', ''ijkl9012'', ''ijkl9012.ini''] None
               (snd (snd (from_ini_call [''tree''] two_trees
                  [''languoids'', ''tree'', ''abcd1234'', ''efgh5678'', ''efgh5678.ini''] None
                  Map.empty))))) = None
   \<and> Some ''efgh5678''
       \<in> dom (snd (snd (from_ini_call [''tree''] two_trees
               [''build'', ''tree'', ''abcd1234'', ''ijkl9012'', ''ijkl9012.ini''] None
               (snd (snd (from_ini_call [''tree''] two_trees
                  [''languoids'', ''tree'', ''abcd1234'', ''efgh5678'', ''efgh5678.ini''] None
                  Map.empty))))))
   \<and> snd (snd (from_ini_call [''tree''] two_trees
               [''build'', ''tree'', ''abcd1234'', ''ijkl9012'', ''ijkl9012.ini''] (Some Map.empty)
               (snd (snd (from_ini_call [''tree''] two_trees
                  [''languoids'', ''tree'', ''abcd1234'', ''efgh5678'', ''efgh5678.ini''] None
                  Map.empty)))))
     = snd (snd (from_ini_call [''tree''] two_trees
                  [''languoids'', ''tree'', ''abcd1234'', ''efgh5678'', ''efgh5678.ini''] None
                  Map.empty))"
proof -
  let ?T = "[''tree'']"
  let ?p1 = "[''languoids'', ''tree'', ''abcd1234'', ''efgh5678'', ''efgh5678.ini'']"
  let ?p2 = "[''build'', ''tree'', ''abcd1234'', ''ijkl9012'', ''ijkl9012.ini'']"
  let ?D1 = "snd (snd (from_ini_call ?T two_trees ?p1 None Map.empty))"
  let ?c2 = "from_ini_call ?T two_trees ?p2 None ?D1"
  let ?c3 = "from_ini_call ?T two_trees ?p2 (Some Map.empty) ?D1"
  have "?c2 = (fst ?c2, fst (snd ?c2), snd (snd ?c2))"
    by simp
  with from_ini_call_shared_default[where TREE = ?T and fs = two_trees and ini = ?p2
      and dflt = ?D1 and r = "fst ?c2" and a = "fst (snd ?c2)" and dflt' = "snd (snd ?c2)"]
  have omit: "fst (snd ?c2) = None \<and> dom ?D1 \<subseteq> dom (snd (snd ?c2))"
    by blast
  have "?D1 (Some ''efgh5678'') = Some (Some ''E'', Some ''efgh5678'', LvEnum language)"
    by code_simp
  then have "Some ''efgh5678'' \<in> dom ?D1"
    by blast
  with omit have grown: "Some ''efgh5678'' \<in> dom (snd (snd ?c2))"
    by blast
  have "?c3 = (fst ?c3, fst (snd ?c3), snd (snd ?c3))"
    by simp
  with from_ini_call_shared_default[where TREE = ?T and fs = two_trees and ini = ?p2
      and n = Map.empty and dflt = ?D1 and r = "fst ?c3" and a = "fst (snd ?c3)"
      and dflt' = "snd (snd ?c3)"]
  have "snd (snd ?c3) = ?D1"
    by blast
  with omit grown show ?thesis
    by blast
qed


text \<open>
  The result of a call that omits \<open>nodes\<close> depends on the calls made before it: after
  a node of \<open>languoids/tree\<close> has been loaded, the node \<open>ijkl9012\<close> of \<open>build/tree\<close> gets the
  family name \<open>Old\<close> from the dictionary, and \<open>New\<close> when it is loaded first.
\<close>

theorem from_ini_call_depends_on_earlier_call_counterexample:
  "map_sum (\<lambda>e. e) lineage
     (fst (from_ini_call [''tree''] two_trees
             [''build'', ''tree'', ''abcd1234'', ''ijkl9012'', ''ijkl9012.ini''] None
             (snd (snd (from_ini_call [''tree''] two_trees
                [''languoids'', ''tree'', ''abcd1234'', ''efgh5678'', ''efgh5678.ini''] None
                Map.empty)))))
     = Inr [(Some ''Old'', ''abcd1234'', family)]
   \<and> map_sum (\<lambda>e. e) lineage
     (fst (from_ini_call [''tree''] two_trees
             [''build'', ''tree'', ''abcd1234'', ''ijkl9012'', ''ijkl9012.ini''] None Map.empty))
     = Inr [(Some ''New'', ''abcd1234'', family)]"
  by code_simp

subsection \<open>The identifier pattern\<close>

lemma cls_lower_digit:
  "in_class [(CHR ''a'', CHR ''z''), (CHR ''0'', CHR ''9'')] = (\<lambda>c. is_lower c \<or> is_digit c)"
  by (rule ext) (simp add: in_class_def is_lower_def is_digit_def)

lemma cls_digit: "in_class [(CHR ''0'', CHR ''9'')] = is_digit"
  by (rule ext) (simp add: in_class_def is_digit_def)

lemma hyphen_code: "((of_char c :: nat) = 45) = (c = CHR ''-'')"
proof -
  have "(of_char (CHR ''-'') :: nat) = 45"
    by simp
  then show ?thesis
    by (metis of_char_eq_iff)
qed

lemma cls_suffix:
  "in_class [(CHR ''A'', CHR ''Z''), (CHR ''a'', CHR ''z''), (CHR ''0'', CHR ''9''),
             (CHR ''-'', CHR ''-'')]
   = (\<lambda>c. is_upper c \<or> is_lower c \<or> is_digit c \<or> c = CHR ''-'')"
  by (rule ext) (auto simp: in_class_def is_lower_def is_digit_def is_upper_def hyphen_code)

lemma rep_iter_cls:
  "rep_iter (rmatch (Cls rs)) n s =
     (if n \<le> length s \<and> list_all (in_class rs) (take n s) then [drop n s] else [])"
proof (induction n arbitrary: s)
  case 0
  then show ?case by simp
next
  case (Suc n)
  then show ?case by (cases s) auto
qed

lemma plus_iter_cls:
  "set (plus_iter (rmatch (Cls rs)) k s) =
     {drop j s | j. 1 \<le> j \<and> j \<le> k \<and> j \<le> length (takeWhile (in_class rs) s)}"
proof (induction k arbitrary: s)
  case 0
  then show ?case by auto
next
  case (Suc k)
  show ?case
  proof (cases s)
    case Nil
    then show ?thesis by auto
  next
    case (Cons c cs)
    show ?thesis
    proof (cases "in_class rs c")
      case False
      with Cons show ?thesis by auto
    next
      case True
      have "set (plus_iter (rmatch (Cls rs)) (Suc k) s)
              = insert cs (set (plus_iter (rmatch (Cls rs)) k cs))"
        using Cons True by simp
      also have "\<dots> = insert cs {drop j cs | j. 1 \<le> j \<and> j \<le> k
                                \<and> j \<le> length (takeWhile (in_class rs) cs)}"
        by (simp add: Suc.IH)
      also have "\<dots> = {drop j s | j. 1 \<le> j \<and> j \<le> Suc k
                                \<and> j \<le> length (takeWhile (in_class rs) s)}"
        (is "?L = ?R")
      proof (intro set_eqI iffI)
        fix x assume "x \<in> ?L"
        then consider "x = cs" | j where "x = drop j cs" "1 \<le> j" "j \<le> k"
          "j \<le> length (takeWhile (in_class rs) cs)"
          by auto
        then show "x \<in> ?R"
        proof cases
          case 1
          then have "x = drop 1 s" using Cons by simp
          then show ?thesis using Cons True by (intro CollectI exI[of _ 1]) simp
        next
          case 2
          then have "x = drop (Suc j) s" using Cons by simp
          then show ?thesis using 2 Cons True by (intro CollectI exI[of _ "Suc j"]) simp
        qed
      next
        fix x assume "x \<in> ?R"
        then obtain j where j: "x = drop j s" "1 \<le> j" "j \<le> Suc k"
          "j \<le> length (takeWhile (in_class rs) s)"
          by auto
        then obtain i where i: "j = Suc i" by (cases j) auto
        show "x \<in> ?L"
        proof (cases i)
          case 0
          with j i Cons show ?thesis by simp
        next
          case (Suc i')
          with j i Cons True have "x = drop i cs" "1 \<le> i" "i \<le> k"
            "i \<le> length (takeWhile (in_class rs) cs)"
            by simp_all
          then show ?thesis by blast
        qed
      qed
      finally show ?thesis .
    qed
  qed
qed


lemma at_dollar_drop:
  "at_dollar (drop j s) \<longleftrightarrow> length s \<le> j \<or> (Suc j = length s \<and> last s = CHR 0x0A)"
proof (cases "length s \<le> j")
  case True
  then show ?thesis by (simp add: at_dollar_def)
next
  case False
  then have j: "j < length s" by simp
  have "drop j s = [CHR 0x0A] \<longleftrightarrow> Suc j = length s \<and> last s = CHR 0x0A"
  proof
    assume a: "drop j s = [CHR 0x0A]"
    then have "length (drop j s) = 1" by simp
    then have l: "Suc j = length s" using j by simp
    have "last s = last (drop j s)" using j by (simp add: last_drop)
    with a l show "Suc j = length s \<and> last s = CHR 0x0A" by simp
  next
    assume a: "Suc j = length s \<and> last s = CHR 0x0A"
    then have "length s = Suc j" by simp
    then have "length (drop j s) = 1" by simp
    then obtain x where x: "drop j s = [x]"
      by (cases "drop j s") auto
    have "last s = last (drop j s)" using j by (simp add: last_drop)
    with x a show "drop j s = [CHR 0x0A]" by simp
  qed
  with False j show ?thesis by (simp add: at_dollar_def)
qed

lemma match_plus_cls:
  "list_ex at_dollar (rmatch (Plus (Cls rs)) s) \<longleftrightarrow>
     (s \<noteq> [] \<and> list_all (in_class rs) s)
     \<or> (butlast s \<noteq> [] \<and> last s = CHR 0x0A \<and> list_all (in_class rs) (butlast s))"
  (is "?L \<longleftrightarrow> ?A \<or> ?B")
proof -
  let ?P = "in_class rs"
  let ?n = "length (takeWhile ?P s)"
  have L: "?L \<longleftrightarrow> (\<exists>j. 1 \<le> j \<and> j \<le> length s \<and> j \<le> ?n \<and> at_dollar (drop j s))"
    by (auto simp: list_ex_iff plus_iter_cls)
  have n_le: "?n \<le> length s" by (rule length_takeWhile_le)
  have all_iff: "\<And>k. k \<le> length s \<Longrightarrow> k \<le> ?n \<longleftrightarrow> list_all ?P (take k s)"
  proof -
    fix k assume k: "k \<le> length s"
    show "k \<le> ?n \<longleftrightarrow> list_all ?P (take k s)"
    proof
      assume "k \<le> ?n"
      then have "take k s = take k (takeWhile ?P s)"
        by (metis take_take min.absorb1 takeWhile_eq_take)
      then have "set (take k s) \<subseteq> set (takeWhile ?P s)"
        by (metis set_take_subset)
      then show "list_all ?P (take k s)"
        by (auto simp: list_all_iff dest: set_takeWhileD)
    next
      assume a: "list_all ?P (take k s)"
      have "s = take k s @ drop k s" by simp
      then have "takeWhile ?P s = take k s @ takeWhile ?P (drop k s)"
        using a by (metis list_all_iff takeWhile_append2)
      then have "length (takeWhile ?P s) \<ge> length (take k s)"
        by simp
      with k show "k \<le> ?n" by simp
    qed
  qed
  show ?thesis
  proof
    assume ?L
    with L obtain j where j: "1 \<le> j" "j \<le> length s" "j \<le> ?n" "at_dollar (drop j s)"
      by blast
    from j(2,3) all_iff have al: "list_all ?P (take j s)" by blast
    from j(4) at_dollar_drop[of j s] consider "length s \<le> j" | "Suc j = length s" "last s = CHR 0x0A"
      by blast
    then show "?A \<or> ?B"
    proof cases
      case 1
      with j al have "s \<noteq> [] \<and> list_all ?P s" by auto
      then show ?thesis by blast
    next
      case 2
      then have "length s = Suc j" by simp
      then have "butlast s = take j s" by (simp add: butlast_conv_take)
      with 2 j al have ?B by auto
      then show ?thesis by blast
    qed
  next
    assume "?A \<or> ?B"
    then show ?L
    proof
      assume ?A
      then have "1 \<le> length s \<and> length s \<le> length s \<and> length s \<le> ?n
                 \<and> at_dollar (drop (length s) s)"
        using all_iff[of "length s"] by (cases s) (auto simp: at_dollar_def)
      with L show ?L by blast
    next
      assume b: ?B
      let ?j = "length s - 1"
      from b have ne: "s \<noteq> []" by auto
      then have bl: "butlast s = take ?j s" by (simp add: butlast_conv_take)
      from b ne have "1 \<le> ?j" by (cases s rule: rev_cases) (auto simp: Suc_le_eq)
      moreover have "?j \<le> length s" by simp
      moreover have "?j \<le> ?n" using all_iff[of ?j] b bl by simp
      moreover have "at_dollar (drop ?j s)"
        using at_dollar_drop[of ?j s] b ne by (cases s) auto
      ultimately show ?L using L by blast
    qed
  qed
qed


lemma match_first_alt:
  "list_ex at_dollar (rmatch (Cat (Rep 4 (Cls [(CHR ''a'', CHR ''z''), (CHR ''0'', CHR ''9'')]))
                                  (Rep 4 (Cls [(CHR ''0'', CHR ''9'')]))) s)
   \<longleftrightarrow> code8 s \<or> (s \<noteq> [] \<and> last s = CHR 0x0A \<and> code8 (butlast s))"
proof -
  let ?A = "\<lambda>c. is_lower c \<or> is_digit c"
  have L: "list_ex at_dollar (rmatch (Cat (Rep 4 (Cls [(CHR ''a'', CHR ''z''), (CHR ''0'', CHR ''9'')]))
                                  (Rep 4 (Cls [(CHR ''0'', CHR ''9'')]))) s)
     \<longleftrightarrow> 8 \<le> length s \<and> list_all ?A (take 4 s) \<and> list_all is_digit (take 4 (drop 4 s))
          \<and> at_dollar (drop 8 s)"
    by (auto simp: rep_iter_cls cls_lower_digit cls_digit)
  show ?thesis
  proof (cases "length s = 8")
    case True
    then show ?thesis
      unfolding L by (auto simp: code8_def at_dollar_def)
  next
    case False
    show ?thesis
    proof (cases "length s = 9")
      case True
      then have b: "butlast s = take 8 s" "s \<noteq> []"
        by (auto simp: butlast_conv_take)
      have "take 4 (butlast s) = take 4 s" "drop 4 (butlast s) = take 4 (drop 4 s)"
        using True by (simp_all add: b drop_take)
      with True b show ?thesis
        unfolding L using at_dollar_drop[of 8 s] by (auto simp: code8_def)
    next
      case n9: False
      with False show ?thesis
        unfolding L using at_dollar_drop[of 8 s] by (auto simp: code8_def)
    qed
  qed
qed

lemma nocode_exact:
  "take 6 s = ''NOCODE'' \<and> at_dollar (drop 6 s)
   \<longleftrightarrow> s = ''NOCODE'' \<or> (s \<noteq> [] \<and> last s = CHR 0x0A \<and> butlast s = ''NOCODE'')"
proof
  assume a: "take 6 s = ''NOCODE'' \<and> at_dollar (drop 6 s)"
  then have "length (take 6 s) = 6" by simp
  then have len: "6 \<le> length s" by simp
  from a at_dollar_drop[of 6 s] consider "length s \<le> 6" | "length s = 7" "last s = CHR 0x0A"
    by auto
  then show "s = ''NOCODE'' \<or> (s \<noteq> [] \<and> last s = CHR 0x0A \<and> butlast s = ''NOCODE'')"
  proof cases
    case 1
    with len have "take 6 s = s" by simp
    with a show ?thesis by simp
  next
    case 2
    then have "butlast s = take 6 s" "s \<noteq> []"
      by (auto simp: butlast_conv_take)
    with a 2 show ?thesis by simp
  qed
next
  assume "s = ''NOCODE'' \<or> (s \<noteq> [] \<and> last s = CHR 0x0A \<and> butlast s = ''NOCODE'')"
  then consider "s = ''NOCODE''" | "s = ''NOCODE'' @ [CHR 0x0A]"
    by (metis append_butlast_last_id)
  then show "take 6 s = ''NOCODE'' \<and> at_dollar (drop 6 s)"
    by cases (simp_all add: at_dollar_def)
qed

lemma nocode_newline:
  "take 7 s = ''NOCODE_'' \<and> butlast (drop 7 s) \<noteq> [] \<and> last (drop 7 s) = CHR 0x0A
     \<and> list_all P (butlast (drop 7 s))
   \<longleftrightarrow> s \<noteq> [] \<and> last s = CHR 0x0A \<and> take 7 (butlast s) = ''NOCODE_''
       \<and> drop 7 (butlast s) \<noteq> [] \<and> list_all P (drop 7 (butlast s))"
proof (cases "8 \<le> length s")
  case True
  then have "s \<noteq> []" "last (drop 7 s) = last s" "take 7 (butlast s) = take 7 s"
    by (auto simp: last_drop butlast_conv_take)
  then show ?thesis
    by (auto simp: butlast_drop)
next
  case False
  then have "butlast (drop 7 s) = []" "drop 7 (butlast s) = []"
    by (simp_all add: butlast_drop)
  then show ?thesis
    by simp
qed

lemma match_second_alt:
  "list_ex at_dollar
     (rmatch (Cat (Lit ''NOCODE'')
              (Opt (Cat (Lit ''_'')
                        (Plus (Cls [(CHR ''A'', CHR ''Z''), (CHR ''a'', CHR ''z''),
                                    (CHR ''0'', CHR ''9''), (CHR ''-'', CHR ''-'')]))))) s)
   \<longleftrightarrow> (s = ''NOCODE'' \<or> nocode_suffix s)
       \<or> (s \<noteq> [] \<and> last s = CHR 0x0A \<and> (butlast s = ''NOCODE'' \<or> nocode_suffix (butlast s)))"
proof -
  let ?C = "\<lambda>c. is_upper c \<or> is_lower c \<or> is_digit c \<or> c = CHR ''-''"
  let ?cls = "[(CHR ''A'', CHR ''Z''), (CHR ''a'', CHR ''z''), (CHR ''0'', CHR ''9''),
               (CHR ''-'', CHR ''-'')]"
  have pl: "\<And>u. list_ex at_dollar (rmatch (Plus (Cls ?cls)) u) \<longleftrightarrow>
     (u \<noteq> [] \<and> list_all ?C u) \<or> (butlast u \<noteq> [] \<and> last u = CHR 0x0A \<and> list_all ?C (butlast u))"
  proof -
    fix u show "list_ex at_dollar (rmatch (Plus (Cls ?cls)) u) \<longleftrightarrow>
     (u \<noteq> [] \<and> list_all ?C u) \<or> (butlast u \<noteq> [] \<and> last u = CHR 0x0A \<and> list_all ?C (butlast u))"
      using match_plus_cls[of ?cls u] by (simp only: cls_suffix)
  qed
  have L: "list_ex at_dollar
     (rmatch (Cat (Lit ''NOCODE'') (Opt (Cat (Lit ''_'') (Plus (Cls ?cls))))) s)
     \<longleftrightarrow> take 6 s = ''NOCODE'' \<and>
         (at_dollar (drop 6 s)
          \<or> (take 1 (drop 6 s) = ''_'' \<and> list_ex at_dollar (rmatch (Plus (Cls ?cls)) (drop 7 s))))"
    by (auto simp: startswith_def eval_nat_numeral simp del: rmatch.simps(7))
  have t7: "take 6 s = ''NOCODE'' \<and> take 1 (drop 6 s) = ''_'' \<longleftrightarrow> take 7 s = ''NOCODE_''"
  proof -
    have "take (6 + 1) s = take 6 s @ take 1 (drop 6 s)"
      by (rule take_add)
    then have split: "take 7 s = take 6 s @ take 1 (drop 6 s)"
      by simp
    show ?thesis
    proof
      assume "take 6 s = ''NOCODE'' \<and> take 1 (drop 6 s) = ''_''"
      with split show "take 7 s = ''NOCODE_''" by simp
    next
      assume a: "take 7 s = ''NOCODE_''"
      then have "length (take 7 s) = 7" by simp
      then have "7 \<le> length s" by simp
      then have "length (take 6 s) = length ''NOCODE''" by simp
      moreover from a split have "take 6 s @ take 1 (drop 6 s) = ''NOCODE'' @ ''_''" by simp
      ultimately show "take 6 s = ''NOCODE'' \<and> take 1 (drop 6 s) = ''_''"
        by (metis append_eq_append_conv)
    qed
  qed
  have "list_ex at_dollar
     (rmatch (Cat (Lit ''NOCODE'') (Opt (Cat (Lit ''_'') (Plus (Cls ?cls))))) s)
     \<longleftrightarrow> (take 6 s = ''NOCODE'' \<and> at_dollar (drop 6 s))
         \<or> (take 7 s = ''NOCODE_'' \<and> drop 7 s \<noteq> [] \<and> list_all ?C (drop 7 s))
         \<or> (take 7 s = ''NOCODE_'' \<and> butlast (drop 7 s) \<noteq> [] \<and> last (drop 7 s) = CHR 0x0A
              \<and> list_all ?C (butlast (drop 7 s)))"
    unfolding L pl using t7 by blast
  then show ?thesis
    unfolding nocode_exact nocode_newline nocode_suffix_def by blast
qed


text \<open>
  The pattern accepts exactly the strings described in words, and each of them followed
  by one newline.
\<close>

lemma id_pattern_match_iff:
  "id_pattern_match s \<longleftrightarrow> id_spec s \<or> (s \<noteq> [] \<and> last s = CHR 0x0A \<and> id_spec (butlast s))"
proof -
  have "id_pattern_match s \<longleftrightarrow>
          list_ex at_dollar (rmatch (Cat (Rep 4 (Cls [(CHR ''a'', CHR ''z''), (CHR ''0'', CHR ''9'')]))
                                         (Rep 4 (Cls [(CHR ''0'', CHR ''9'')]))) s)
          \<or> list_ex at_dollar
               (rmatch (Cat (Lit ''NOCODE'')
                  (Opt (Cat (Lit ''_'')
                        (Plus (Cls [(CHR ''A'', CHR ''Z''), (CHR ''a'', CHR ''z''),
                                    (CHR ''0'', CHR ''9''), (CHR ''-'', CHR ''-'')]))))) s)"
    unfolding id_pattern_match_def match_dollar_def ID_REGEX_def rmatch.simps(4) list_ex_append ..
  then show ?thesis
    unfolding match_first_alt match_second_alt id_spec_def by blast
qed

text \<open>
  C7. The string \<open>abcd1234\<close> followed by a newline is not of the described form, and the
  pattern accepts it: \<open>$\<close> also matches before a newline that ends the string.
\<close>

theorem id_pattern_accepts_trailing_newline:
  "id_pattern_match (''abcd1234'' @ [CHR 0x0A]) \<and> \<not> id_spec (''abcd1234'' @ [CHR 0x0A])"
  by code_simp

text \<open>The four examples of the specification.\<close>

lemma id_pattern_examples:
  "id_pattern_match ''abcd1234''" "id_pattern_match ''NOCODE_Foo-1''"
  "\<not> id_pattern_match ''AB1234''" "\<not> id_pattern_match ''abcd123''"
  by code_simp+

end
